theory Spec2Isabelle
  imports Main
begin

section \<open>Cards, hands and piles\<close>

text \<open>
  The server (\<^verbatim>\<open>server.js\<close>) builds cards as objects \<^verbatim>\<open>{ suit, value }\<close> from the
  two literal arrays of \<^verbatim>\<open>createDeck\<close>. The four suit symbols become the constructors
  of \<open>suit\<close>; the thirteen value strings become \<open>rank\<close>, where \<open>Pip n\<close> stands for
  the decimal string of \<open>n\<close> (the strings \<^verbatim>\<open>'2'\<close> to \<^verbatim>\<open>'10'\<close>), so that
  \<^verbatim>\<open>parseInt(card.value)\<close> is \<open>int n\<close>.
\<close>

datatype suit = Spades | Hearts | Diamonds | Clubs

datatype rank = Ace | Pip nat | Jack | Queen | King

record card =
  suit :: suit
  cvalue :: rank

text \<open>
  A hand is a JavaScript array that the handlers index with a number taken from the
  request. An element is a card, the value \<^verbatim>\<open>undefined\<close> stored explicitly, or a hole
  left by a write beyond the end of the array (\<^verbatim>\<open>forEach\<close> skips holes but visits
  an explicit \<^verbatim>\<open>undefined\<close>). Indices are natural numbers: the model covers requests
  whose \<^verbatim>\<open>cardIndex\<close> is a non-negative integer.
\<close>

datatype slot = Hole | Undefined | Crd card

text \<open>Reading \<^verbatim>\<open>cards[i]\<close>: \<open>None\<close> is \<^verbatim>\<open>undefined\<close>.\<close>

definition getSlot :: "slot list \<Rightarrow> nat \<Rightarrow> card option" where
  "getSlot xs i =
     (if i < length xs then (case xs ! i of Crd c \<Rightarrow> Some c | _ \<Rightarrow> None) else None)"

definition toSlot :: "card option \<Rightarrow> slot" where
  "toSlot v = (case v of None \<Rightarrow> Undefined | Some c \<Rightarrow> Crd c)"

text \<open>Writing \<^verbatim>\<open>cards[i] = v\<close>: beyond the end the array grows, with holes in between.\<close>

definition setSlot :: "slot list \<Rightarrow> nat \<Rightarrow> card option \<Rightarrow> slot list" where
  "setSlot xs i v =
     (if i < length xs then xs[i := toSlot v]
      else xs @ replicate (i - length xs) Hole @ [toSlot v])"

text \<open>
  \<^verbatim>\<open>Array.prototype.pop\<close>: the top of a pile is the last element; on an empty array
  the result is \<^verbatim>\<open>undefined\<close> and the array stays empty.
\<close>

definition pop :: "'a list \<Rightarrow> 'a option \<times> 'a list" where
  "pop xs = (if xs = [] then (None, []) else (Some (last xs), butlast xs))"

subsection \<open>createDeck\<close>

definition suits :: "suit list" where
  "suits = [Spades, Hearts, Diamonds, Clubs]"

definition cvalues :: "rank list" where
  "cvalues = [Ace, Pip 2, Pip 3, Pip 4, Pip 5, Pip 6, Pip 7, Pip 8, Pip 9, Pip 10,
              Jack, Queen, King]"

definition orderedDeck :: "card list" where
  "orderedDeck = concat (map (\<lambda>s. map (\<lambda>v. \<lparr>suit = s, cvalue = v\<rparr>) cvalues) suits)"

definition swap :: "'a list \<Rightarrow> nat \<Rightarrow> nat \<Rightarrow> 'a list" where
  "swap d i j = d[i := d ! j, j := d ! i]"

text \<open>
  The shuffle loop \<^verbatim>\<open>for (i = deck.length - 1; i > 0; i--)\<close>. The random index
  \<^verbatim>\<open>Math.floor(Math.random() * (i + 1))\<close> is an input from outside the program known
  only to lie in \<open>{0..i}\<close>: the model takes a chooser \<open>rnd\<close> and reduces its value
  into that range.
\<close>

fun shuffle :: "(nat \<Rightarrow> nat) \<Rightarrow> nat \<Rightarrow> card list \<Rightarrow> card list" where
  "shuffle rnd 0 d = d"
| "shuffle rnd (Suc k) d = shuffle rnd k (swap d (Suc k) (rnd (Suc k) mod (Suc k + 1)))"

definition createDeck :: "(nat \<Rightarrow> nat) \<Rightarrow> card list" where
  "createDeck rnd = shuffle rnd (length orderedDeck - 1) orderedDeck"

subsection \<open>calculateScore\<close>

text \<open>The body of the callback of \<^verbatim>\<open>cards.forEach\<close>: the \<^verbatim>\<open>switch\<close> on the value.\<close>

definition addCard :: "int \<Rightarrow> card \<Rightarrow> int" where
  "addCard tot c =
     (case cvalue c of
        Ace \<Rightarrow> tot + 1
      | Jack \<Rightarrow> tot + 11
      | Queen \<Rightarrow> tot + 12
      | King \<Rightarrow> tot + (if suit c = Hearts \<or> suit c = Diamonds then - 1 else 13)
      | Pip n \<Rightarrow> tot + int n)"

text \<open>
  The loop itself. Reading \<^verbatim>\<open>card.value\<close> of an explicit \<^verbatim>\<open>undefined\<close> raises a
  TypeError: the result is \<open>None\<close>.
\<close>

fun scoreLoop :: "slot list \<Rightarrow> int \<Rightarrow> int option" where
  "scoreLoop [] tot = Some tot"
| "scoreLoop (Hole # xs) tot = scoreLoop xs tot"
| "scoreLoop (Undefined # xs) tot = None"
| "scoreLoop (Crd c # xs) tot = scoreLoop xs (addCard tot c)"

definition calculateScore :: "slot list \<Rightarrow> int option" where
  "calculateScore cs = scoreLoop cs 0"

text \<open>The value table as the specification words it, and the score as a sum over it.\<close>

definition isRed :: "suit \<Rightarrow> bool" where
  "isRed s = (s = Hearts \<or> s = Diamonds)"

fun tableValue :: "card \<Rightarrow> int" where
  "tableValue c =
     (case cvalue c of
        Ace \<Rightarrow> 1
      | Pip n \<Rightarrow> int n
      | Jack \<Rightarrow> 11
      | Queen \<Rightarrow> 12
      | King \<Rightarrow> (if isRed (suit c) then - 1 else 13))"

definition tableScore :: "card list \<Rightarrow> int" where
  "tableScore cs = sum_list (map tableValue cs)"


section \<open>Sessions and the registry\<close>

text \<open>
  The player and game objects of \<^verbatim>\<open>CREATE_GAME\<close> and \<^verbatim>\<open>JOIN_GAME\<close>. The field
  \<^verbatim>\<open>id\<close> of a player is \<open>pid\<close> here. \<open>None\<close> in \<open>drawnCard\<close>, \<open>currentPlayerId\<close>
  and \<open>caboCallerId\<close> is \<^verbatim>\<open>null\<close> (for \<open>drawnCard\<close> also \<^verbatim>\<open>undefined\<close>, which the
  code tells apart from \<^verbatim>\<open>null\<close> nowhere); \<open>None\<close> in \<open>currentTurn\<close> is \<^verbatim>\<open>NaN\<close>,
  the value of \<^verbatim>\<open>x % 0\<close>. An element of the discard pile is a card or \<^verbatim>\<open>undefined\<close>.
\<close>

record player =
  pid :: string
  name :: string
  isHost :: bool
  cards :: "slot list"
  score :: int
  canSeeCorners :: bool

datatype gstate = Lobby | Playing | Finished

record game =
  code :: string
  host :: string
  players :: "player list"
  state :: gstate
  currentTurn :: "nat option"
  deck :: "card list"
  discardPile :: "card option list"
  round :: nat
  drawnCard :: "card option"
  currentPlayerId :: "string option"
  caboCallerId :: "string option"
  turnsAfterCabo :: nat

text \<open>
  The two global maps: \<open>games\<close> from room code to game, \<open>clients\<close> from connection (a
  number stands for the socket object) to the player and room it is bound to.
\<close>

record client =
  playerId :: string
  gameCode :: string

record server =
  games :: "string \<rightharpoonup> game"
  clients :: "nat \<rightharpoonup> client"

definition emptyServer :: server where
  "emptyServer = \<lparr>games = Map.empty, clients = Map.empty\<rparr>"

text \<open>
  Requests, by their \<^verbatim>\<open>type\<close>, with the fields the handler reads in the order
  \<^verbatim>\<open>playerName, playerId, gameCode, opponentId, cardIndex\<close> (for \<^verbatim>\<open>SWITCH_CARDS\<close>:
  \<^verbatim>\<open>gameCode, playerId, opponentId, playerCardIndex, opponentCardIndex\<close>). Ids, names and
  codes are strings.
\<close>

datatype request =
    CREATE_GAME string string
  | JOIN_GAME string string string
  | START_GAME string
  | DRAW_CARD string string
  | TAKE_DISCARD string string
  | REPLACE_CARD string string nat
  | DISCARD_DRAWN string string
  | CALL_CABO string string
  | PEEK_OWN_CARD string string nat
  | PEEK_OPPONENT_CARD string string string nat
  | SWITCH_CARDS string string string nat nat
  | LEAVE_GAME

datatype response =
    GAME_CREATED string game
  | ERROR string
  | GAME_JOINED game
  | GAME_STARTED game
  | CARD_DRAWN game "card option" string
  | CARD_REPLACED game
  | CARD_DISCARDED game
  | CABO_CALLED game string
  | CARD_PEEKED "card option" nat
  | OPPONENT_CARD_PEEKED "card option" nat string
  | CARDS_SWITCHED game
  | PLAYER_LEFT game
  | GAME_LEFT

text \<open>
  What a handler emits: \<^verbatim>\<open>ws.send\<close> to one connection, \<^verbatim>\<open>broadcast(gameCode, message,
  excludeClient)\<close> to a room, and \<^verbatim>\<open>console.error\<close> in the \<^verbatim>\<open>catch\<close> block that
  encloses every handler (an exception ends the handler and keeps the mutations made
  before it).
\<close>

datatype effect =
    Send nat response
  | Broadcast string response "nat option"
  | ConsoleError

text \<open>
  The random inputs of a request: the room code \<^verbatim>\<open>CREATE_GAME\<close> computes from
  \<^verbatim>\<open>Math.random()\<close>, and the chooser of the shuffle.
\<close>

record env =
  randomCode :: string
  randomIndex :: "nat \<Rightarrow> nat"

text \<open>Truthiness of an id or null: \<^verbatim>\<open>if (game.caboCallerId)\<close>.\<close>

definition truthy :: "string option \<Rightarrow> bool" where
  "truthy v = (case v of None \<Rightarrow> False | Some s \<Rightarrow> s \<noteq> [])"

text \<open>
  \<^verbatim>\<open>game.players.find(p => p.id === x)\<close>: the position of the first player with that
  id; \<open>None\<close> when \<^verbatim>\<open>find\<close> returns \<^verbatim>\<open>undefined\<close>.
\<close>

fun findPlayer :: "player list \<Rightarrow> string \<Rightarrow> nat option" where
  "findPlayer [] x = None"
| "findPlayer (p # ps) x = (if pid p = x then Some 0 else map_option Suc (findPlayer ps x))"

subsection \<open>CREATE\_GAME and JOIN\_GAME\<close>

definition newPlayer :: "string \<Rightarrow> string \<Rightarrow> bool \<Rightarrow> player" where
  "newPlayer p n h =
     \<lparr>pid = p, name = n, isHost = h, cards = [], score = 0, canSeeCorners = False\<rparr>"

definition newGame :: "string \<Rightarrow> string \<Rightarrow> string \<Rightarrow> game" where
  "newGame c n p =
     \<lparr>code = c, host = p, players = [newPlayer p n True], state = Lobby,
      currentTurn = Some 0, deck = [], discardPile = [], round = 1, drawnCard = None,
      currentPlayerId = None, caboCallerId = None, turnsAfterCabo = 0\<rparr>"

definition createGame :: "env \<Rightarrow> nat \<Rightarrow> string \<Rightarrow> string \<Rightarrow> server \<Rightarrow> server \<times> effect list" where
  "createGame e ws n p st =
     (let c = randomCode e; g = newGame c n p
      in (st\<lparr>games := (games st)(c \<mapsto> g),
             clients := (clients st)(ws \<mapsto> \<lparr>playerId = p, gameCode = c\<rparr>)\<rparr>,
          [Send ws (GAME_CREATED c g)]))"

definition joinGame :: "nat \<Rightarrow> string \<Rightarrow> string \<Rightarrow> string \<Rightarrow> server \<Rightarrow> server \<times> effect list" where
  "joinGame ws n p gc st =
     (case games st gc of
        None \<Rightarrow> (st, [Send ws (ERROR ''Game not found'')])
      | Some g \<Rightarrow>
          if length (players g) \<ge> 8 then (st, [Send ws (ERROR ''Game is full'')])
          else if \<exists>q \<in> set (players g). name q = n
            then (st, [Send ws (ERROR ''Player name already taken'')])
          else
            (let g' = g\<lparr>players := players g @ [newPlayer p n False]\<rparr>
             in (st\<lparr>games := (games st)(gc \<mapsto> g'),
                    clients := (clients st)(ws \<mapsto> \<lparr>playerId = p, gameCode = gc\<rparr>)\<rparr>,
                 [Send ws (GAME_JOINED g'), Broadcast gc (GAME_JOINED g') (Some ws)])))"

subsection \<open>START\_GAME\<close>

definition deal4 :: "card list \<Rightarrow> slot list \<times> card list" where
  "deal4 d =
     (let r1 = pop d; r2 = pop (snd r1); r3 = pop (snd r2); r4 = pop (snd r3)
      in (map toSlot [fst r1, fst r2, fst r3, fst r4], snd r4))"

fun dealCards :: "player list \<Rightarrow> card list \<Rightarrow> player list \<times> card list" where
  "dealCards [] d = ([], d)"
| "dealCards (p # ps) d =
     (let h = deal4 d; r = dealCards ps (snd h)
      in (p\<lparr>cards := fst h, score := 0, canSeeCorners := True\<rparr> # fst r, snd r))"

definition startGame :: "env \<Rightarrow> nat \<Rightarrow> string \<Rightarrow> game \<Rightarrow> game \<times> effect list" where
  "startGame e ws gc g =
     (if length (players g) < 2 then (g, [Send ws (ERROR ''Need at least 2 players'')])
      else
        (let r = pop (createDeck (randomIndex e));
             dl = dealCards (players g) (snd r);
             g' = g\<lparr>state := Playing, deck := snd dl, discardPile := [fst r],
                    currentPlayerId := Some (pid (players g ! 0)), players := fst dl\<rparr>
         in (g', [Broadcast gc (GAME_STARTED g') None, Send ws (GAME_STARTED g')])))"

subsection \<open>DRAW\_CARD and TAKE\_DISCARD\<close>

definition drawCard :: "nat \<Rightarrow> string \<Rightarrow> string \<Rightarrow> game \<Rightarrow> game \<times> effect list" where
  "drawCard ws gc p g =
     (if currentPlayerId g \<noteq> Some p then (g, [Send ws (ERROR ''Not your turn'')])
      else if drawnCard g \<noteq> None
        then (g, [Send ws (ERROR ''Already drew a card this turn'')])
      else
        (let r = pop (deck g);
             g' = g\<lparr>deck := snd r, drawnCard := fst r\<rparr>
         in (g', [Broadcast gc (CARD_DRAWN g' (fst r) p) None,
                  Send ws (CARD_DRAWN g' (fst r) p)])))"

definition takeDiscard :: "nat \<Rightarrow> string \<Rightarrow> string \<Rightarrow> game \<Rightarrow> game \<times> effect list" where
  "takeDiscard ws gc p g =
     (if currentPlayerId g \<noteq> Some p then (g, [Send ws (ERROR ''Not your turn'')])
      else if drawnCard g \<noteq> None
        then (g, [Send ws (ERROR ''Already drew a card this turn'')])
      else
        (let r = pop (discardPile g);
             c = (case fst r of None \<Rightarrow> None | Some v \<Rightarrow> v);
             g' = g\<lparr>discardPile := snd r, drawnCard := c\<rparr>
         in (g', [Broadcast gc (CARD_DRAWN g' c p) None, Send ws (CARD_DRAWN g' c p)])))"

subsection \<open>REPLACE\_CARD and DISCARD\_DRAWN\<close>

text \<open>A handler either runs to its end or throws; both keep the game as mutated so far.\<close>

datatype outcome = Done game | Threw game

fun outGame :: "outcome \<Rightarrow> game" where
  "outGame (Done g) = g"
| "outGame (Threw g) = g"

text \<open>
  The scoring loop \<^verbatim>\<open>game.players.forEach(p => { p.score = calculateScore(p.cards) })\<close>:
  the flag is false when \<^verbatim>\<open>calculateScore\<close> threw, and then the players from the
  failing one on keep their scores.
\<close>

fun scoreAll :: "player list \<Rightarrow> player list \<times> bool" where
  "scoreAll [] = ([], True)"
| "scoreAll (p # ps) =
     (case calculateScore (cards p) of
        None \<Rightarrow> (p # ps, False)
      | Some s \<Rightarrow> (let r = scoreAll ps in (p\<lparr>score := s\<rparr> # fst r, snd r)))"

text \<open>The block under the comment \<^verbatim>\<open>Check if Cabo was called\<close>, the same in both handlers.\<close>

definition caboCheck :: "game \<Rightarrow> outcome" where
  "caboCheck g =
     (if truthy (caboCallerId g) then
        (let g1 = g\<lparr>turnsAfterCabo := turnsAfterCabo g + 1\<rparr>
         in if turnsAfterCabo g1 \<ge> length (players g1) then
              (let r = scoreAll (players g1)
               in if snd r then Done (g1\<lparr>players := fst r, state := Finished\<rparr>)
                  else Threw (g1\<lparr>players := fst r\<rparr>))
            else Done g1)
      else Done g)"

definition nextTurn :: "game \<Rightarrow> game" where
  "nextTurn g =
     g\<lparr>currentTurn :=
         (case currentTurn g of
            None \<Rightarrow> None
          | Some t \<Rightarrow> if players g = [] then None else Some ((t + 1) mod length (players g)))\<rparr>"

text \<open>
  \<^verbatim>\<open>if (game.state === 'playing') { nextTurn(game); game.currentPlayerId =
  game.players[game.currentTurn].id; }\<close>: the lookup throws when the index is \<^verbatim>\<open>NaN\<close>
  or past the end.
\<close>

definition advanceTurn :: "game \<Rightarrow> outcome" where
  "advanceTurn g =
     (if state g = Playing then
        (let g1 = nextTurn g
         in case currentTurn g1 of
              None \<Rightarrow> Threw g1
            | Some t \<Rightarrow>
                if t < length (players g1)
                then Done (g1\<lparr>currentPlayerId := Some (pid (players g1 ! t))\<rparr>)
                else Threw g1)
      else Done g)"

definition endTurn :: "nat \<Rightarrow> string \<Rightarrow> (game \<Rightarrow> response) \<Rightarrow> game \<Rightarrow> game \<times> effect list" where
  "endTurn ws gc mk g =
     (case caboCheck g of
        Threw g1 \<Rightarrow> (g1, [ConsoleError])
      | Done g1 \<Rightarrow>
          (case advanceTurn g1 of
             Threw g2 \<Rightarrow> (g2, [ConsoleError])
           | Done g2 \<Rightarrow> (g2, [Broadcast gc (mk g2) None, Send ws (mk g2)])))"

text \<open>
  The four statements of \<^verbatim>\<open>REPLACE_CARD\<close> that follow the lookup of the player (found at
  position \<open>k\<close>): read the old card, write the drawn card into the slot, push the old
  card onto the discard pile, clear \<^verbatim>\<open>drawnCard\<close>.
\<close>

definition putCard :: "nat \<Rightarrow> nat \<Rightarrow> game \<Rightarrow> game" where
  "putCard k i g =
     (let pl = players g ! k;
          oldCard = getSlot (cards pl) i;
          pl' = pl\<lparr>cards := setSlot (cards pl) i (drawnCard g)\<rparr>
      in g\<lparr>players := (players g)[k := pl'],
           discardPile := discardPile g @ [oldCard],
           drawnCard := None\<rparr>)"

definition replaceCard :: "nat \<Rightarrow> string \<Rightarrow> string \<Rightarrow> nat \<Rightarrow> game \<Rightarrow> game \<times> effect list" where
  "replaceCard ws gc p i g =
     (if currentPlayerId g \<noteq> Some p \<or> drawnCard g = None
      then (g, [Send ws (ERROR ''Invalid action'')])
      else
        (case findPlayer (players g) p of
           None \<Rightarrow> (g, [ConsoleError])
         | Some k \<Rightarrow> endTurn ws gc CARD_REPLACED (putCard k i g)))"

text \<open>The two statements of \<^verbatim>\<open>DISCARD_DRAWN\<close> before the Cabo check.\<close>

definition discardHeld :: "game \<Rightarrow> game" where
  "discardHeld g = g\<lparr>discardPile := discardPile g @ [drawnCard g], drawnCard := None\<rparr>"

definition discardDrawn :: "nat \<Rightarrow> string \<Rightarrow> string \<Rightarrow> game \<Rightarrow> game \<times> effect list" where
  "discardDrawn ws gc p g =
     (if currentPlayerId g \<noteq> Some p \<or> drawnCard g = None
      then (g, [Send ws (ERROR ''Invalid action'')])
      else endTurn ws gc CARD_DISCARDED (discardHeld g))"

subsection \<open>CALL\_CABO\<close>

definition callCabo :: "nat \<Rightarrow> string \<Rightarrow> string \<Rightarrow> game \<Rightarrow> game \<times> effect list" where
  "callCabo ws gc p g =
     (if currentPlayerId g \<noteq> Some p then (g, [Send ws (ERROR ''Not your turn'')])
      else if truthy (caboCallerId g) then (g, [Send ws (ERROR ''Cabo already called'')])
      else
        (let g' = g\<lparr>caboCallerId := Some p, turnsAfterCabo := 0\<rparr>
         in case findPlayer (players g') p of
              None \<Rightarrow> (g', [ConsoleError])
            | Some k \<Rightarrow>
                (g', [Broadcast gc (CABO_CALLED g' (name (players g' ! k))) None,
                      Send ws (CABO_CALLED g' (name (players g' ! k)))])))"

subsection \<open>The power operations\<close>

definition peekOwnCard :: "nat \<Rightarrow> string \<Rightarrow> nat \<Rightarrow> game \<Rightarrow> effect list" where
  "peekOwnCard ws p i g =
     (case findPlayer (players g) p of
        None \<Rightarrow> [ConsoleError]
      | Some k \<Rightarrow> [Send ws (CARD_PEEKED (getSlot (cards (players g ! k)) i) i)])"

definition peekOpponentCard :: "nat \<Rightarrow> string \<Rightarrow> nat \<Rightarrow> game \<Rightarrow> effect list" where
  "peekOpponentCard ws opp i g =
     (case findPlayer (players g) opp of
        None \<Rightarrow> [ConsoleError]
      | Some k \<Rightarrow> [Send ws (OPPONENT_CARD_PEEKED (getSlot (cards (players g ! k)) i) i opp)])"

text \<open>
  \<^verbatim>\<open>SWITCH_CARDS\<close>: both slots are read before the first write, and the two players
  may be the same object, so the second write goes to the list as the first left it.
\<close>

definition swapSlots :: "nat \<Rightarrow> nat \<Rightarrow> nat \<Rightarrow> nat \<Rightarrow> game \<Rightarrow> game" where
  "swapSlots a b i j g =
     (let temp = getSlot (cards (players g ! a)) i;
          v = getSlot (cards (players g ! b)) j;
          ps1 = (players g)[a := (players g ! a)\<lparr>cards := setSlot (cards (players g ! a)) i v\<rparr>];
          ps2 = ps1[b := (ps1 ! b)\<lparr>cards := setSlot (cards (ps1 ! b)) j temp\<rparr>]
      in g\<lparr>players := ps2\<rparr>)"

definition switchCards ::
  "nat \<Rightarrow> string \<Rightarrow> string \<Rightarrow> string \<Rightarrow> nat \<Rightarrow> nat \<Rightarrow> game \<Rightarrow> game \<times> effect list" where
  "switchCards ws gc p opp i j g =
     (case findPlayer (players g) p of
        None \<Rightarrow> (g, [ConsoleError])
      | Some a \<Rightarrow>
          (case findPlayer (players g) opp of
             None \<Rightarrow> (g, [ConsoleError])
           | Some b \<Rightarrow>
               (let g' = swapSlots a b i j g
                in (g', [Broadcast gc (CARDS_SWITCHED g') None, Send ws (CARDS_SWITCHED g')]))))"

subsection \<open>LEAVE\_GAME and the close of a connection\<close>

text \<open>The part the \<^verbatim>\<open>LEAVE_GAME\<close> handler and the \<^verbatim>\<open>close\<close> handler share.\<close>

definition removePlayer :: "nat \<Rightarrow> server \<Rightarrow> server \<times> effect list" where
  "removePlayer ws st =
     (case clients st ws of
        None \<Rightarrow> (st, [])
      | Some ci \<Rightarrow>
          (let r =
             (case games st (gameCode ci) of
                None \<Rightarrow> (games st, [])
              | Some g \<Rightarrow>
                  (let ps = filter (\<lambda>q. pid q \<noteq> playerId ci) (players g)
                   in if ps = [] then ((games st)(gameCode ci := None), [])
                      else
                        (let g' =
                           (if host g = playerId ci
                            then g\<lparr>players := ps[0 := (ps ! 0)\<lparr>isHost := True\<rparr>],
                                   host := pid (ps ! 0)\<rparr>
                            else g\<lparr>players := ps\<rparr>)
                         in ((games st)(gameCode ci \<mapsto> g'),
                             [Broadcast (gameCode ci) (PLAYER_LEFT g') None]))))
           in (st\<lparr>games := fst r, clients := (clients st)(ws := None)\<rparr>, snd r)))"

subsection \<open>The message handler\<close>

text \<open>
  A handler that works on the game of the request: \<open>missing\<close> is what it sends when
  \<^verbatim>\<open>games.get(message.gameCode)\<close> finds nothing. The game object is mutated in place,
  so the registry holds the game the handler leaves.
\<close>

definition onGame ::
  "string \<Rightarrow> effect list \<Rightarrow> (game \<Rightarrow> game \<times> effect list) \<Rightarrow> server \<Rightarrow> server \<times> effect list" where
  "onGame gc missing f st =
     (case games st gc of
        None \<Rightarrow> (st, missing)
      | Some g \<Rightarrow> (st\<lparr>games := (games st)(gc \<mapsto> fst (f g))\<rparr>, snd (f g)))"

definition readGame :: "string \<Rightarrow> (game \<Rightarrow> effect list) \<Rightarrow> server \<Rightarrow> server \<times> effect list" where
  "readGame gc f st = (case games st gc of None \<Rightarrow> (st, []) | Some g \<Rightarrow> (st, f g))"

fun handle :: "env \<Rightarrow> nat \<Rightarrow> request \<Rightarrow> server \<Rightarrow> server \<times> effect list" where
  "handle e ws (CREATE_GAME n p) st = createGame e ws n p st"
| "handle e ws (JOIN_GAME n p gc) st = joinGame ws n p gc st"
| "handle e ws (START_GAME gc) st =
     onGame gc [Send ws (ERROR ''Need at least 2 players'')] (startGame e ws gc) st"
| "handle e ws (DRAW_CARD gc p) st =
     onGame gc [Send ws (ERROR ''Not your turn'')] (drawCard ws gc p) st"
| "handle e ws (TAKE_DISCARD gc p) st =
     onGame gc [Send ws (ERROR ''Not your turn'')] (takeDiscard ws gc p) st"
| "handle e ws (REPLACE_CARD gc p i) st =
     onGame gc [Send ws (ERROR ''Invalid action'')] (replaceCard ws gc p i) st"
| "handle e ws (DISCARD_DRAWN gc p) st =
     onGame gc [Send ws (ERROR ''Invalid action'')] (discardDrawn ws gc p) st"
| "handle e ws (CALL_CABO gc p) st =
     onGame gc [Send ws (ERROR ''Not your turn'')] (callCabo ws gc p) st"
| "handle e ws (PEEK_OWN_CARD gc p i) st = readGame gc (peekOwnCard ws p i) st"
| "handle e ws (PEEK_OPPONENT_CARD gc p opp i) st = readGame gc (peekOpponentCard ws opp i) st"
| "handle e ws (SWITCH_CARDS gc p opp i j) st = onGame gc [] (switchCards ws gc p opp i j) st"
| "handle e ws LEAVE_GAME st =
     (let r = removePlayer ws st in (fst r, snd r @ [Send ws GAME_LEFT]))"

text \<open>What the server reacts to: a message on a connection, or the close of one.\<close>

datatype event = Message nat request | Close nat

fun step :: "env \<Rightarrow> event \<Rightarrow> server \<Rightarrow> server \<times> effect list" where
  "step e (Message ws r) st = handle e ws r st"
| "step e (Close ws) st = removePlayer ws st"

fun run :: "(env \<times> event) list \<Rightarrow> server \<Rightarrow> server" where
  "run [] st = st"
| "run (x # xs) st = run xs (fst (step (fst x) (snd x) st))"

section \<open>Runs of the server and the quantities the properties speak of\<close>

text \<open>
  A run is a list of events, each with the random inputs of its request. \<open>legalRun L\<close>
  holds when every event of the run satisfies \<open>L\<close> in the state it arrives in.
\<close>

fun legalRun :: "(server \<Rightarrow> event \<Rightarrow> bool) \<Rightarrow> (env \<times> event) list \<Rightarrow> server \<Rightarrow> bool" where
  "legalRun L [] st = True"
| "legalRun L (x # xs) st = (L st (snd x) \<and> legalRun L xs (fst (step (fst x) (snd x) st)))"

text \<open>A property of games that holds of every session in the registry.\<close>

definition allGames :: "(game \<Rightarrow> bool) \<Rightarrow> server \<Rightarrow> bool" where
  "allGames I st = (\<forall>c g. games st c = Some g \<longrightarrow> I g)"

subsection \<open>Hand sizes\<close>

text \<open>The number of slots of each hand, in player order.\<close>

definition handLengths :: "game \<Rightarrow> nat list" where
  "handLengths g = map (\<lambda>q. length (cards q)) (players g)"

text \<open>The invariant of the data model: while a session is Playing every hand has 4 slots.\<close>

definition hands4 :: "game \<Rightarrow> bool" where
  "hands4 g = (state g = Playing \<longrightarrow> (\<forall>n \<in> set (handLengths g). n = 4))"

text \<open>
  Requests that keep every hand of a session in play at four slots: a slot index below
  4, and nobody joining a session that is already playing (\<^verbatim>\<open>JOIN_GAME\<close> never looks
  at the state, and the player it adds has no cards).
\<close>

fun slotsInRange :: "server \<Rightarrow> event \<Rightarrow> bool" where
  "slotsInRange st (Message ws (JOIN_GAME n p gc)) =
     (case games st gc of None \<Rightarrow> True | Some g \<Rightarrow> state g \<noteq> Playing)"
| "slotsInRange st (Message ws (REPLACE_CARD gc p i)) = (i < 4)"
| "slotsInRange st (Message ws (SWITCH_CARDS gc p opp i j)) = (i < 4 \<and> j < 4)"
| "slotsInRange st ev = True"

subsection \<open>Counting the cards\<close>

text \<open>
  The sum the specification writes \<^verbatim>\<open>|deck| + |discardPile| + sum of |hand|\<close>, and the
  number of cards held in \<^verbatim>\<open>drawnCard\<close> (0 or 1).
\<close>

definition pileSum :: "game \<Rightarrow> nat" where
  "pileSum g = length (deck g) + length (discardPile g) + sum_list (handLengths g)"

definition held :: "game \<Rightarrow> nat" where
  "held g = (if drawnCard g = None then 0 else 1)"

fun isCard :: "slot \<Rightarrow> bool" where
  "isCard (Crd c) = True"
| "isCard s = False"

text \<open>
  What legal moves keep true of a session: hands and discard pile hold cards only, at
  most 8 players, nothing drawn and nobody's turn in the lobby, and from the start on
  52 cards in the piles, the hands and the held card together.
\<close>

definition accounted :: "game \<Rightarrow> bool" where
  "accounted g =
     (list_all (\<lambda>h. list_all isCard h) (map cards (players g))
      \<and> list_all (\<lambda>d. d \<noteq> None) (discardPile g)
      \<and> length (players g) \<le> 8
      \<and> (state g = Lobby \<longrightarrow> drawnCard g = None \<and> currentPlayerId g = None)
      \<and> (state g \<noteq> Lobby \<longrightarrow> pileSum g + held g = 52))"

text \<open>The session a connection is bound to, if any, is still in the lobby.\<close>

definition notStarted :: "server \<Rightarrow> nat \<Rightarrow> bool" where
  "notStarted st ws =
     (case clients st ws of
        None \<Rightarrow> True
      | Some ci \<Rightarrow> (case games st (gameCode ci) of None \<Rightarrow> True | Some g \<Rightarrow> state g = Lobby))"

text \<open>
  The moves of the game as the specification lays them out: a session is started from
  the lobby, a slot index lies within the hand it addresses, and a player leaves (or
  loses the connection) only before the start. Every other request is left to the
  checks of the server.
\<close>

fun legalMove :: "server \<Rightarrow> event \<Rightarrow> bool" where
  "legalMove st (Message ws (START_GAME gc)) =
     (case games st gc of None \<Rightarrow> True | Some g \<Rightarrow> state g = Lobby)"
| "legalMove st (Message ws (REPLACE_CARD gc p i)) =
     (case games st gc of
        None \<Rightarrow> True
      | Some g \<Rightarrow>
          (case findPlayer (players g) p of
             None \<Rightarrow> True
           | Some k \<Rightarrow> i < length (cards (players g ! k))))"
| "legalMove st (Message ws (SWITCH_CARDS gc p opp i j)) =
     (case games st gc of
        None \<Rightarrow> True
      | Some g \<Rightarrow>
          (case findPlayer (players g) p of
             None \<Rightarrow> True
           | Some a \<Rightarrow>
               (case findPlayer (players g) opp of
                  None \<Rightarrow> True
                | Some b \<Rightarrow> i < length (cards (players g ! a)) \<and> j < length (cards (players g ! b)))))"
| "legalMove st (Message ws LEAVE_GAME) = notStarted st ws"
| "legalMove st (Close ws) = notStarted st ws"
| "legalMove st ev = True"

subsection \<open>Leaving the Finished state\<close>

text \<open>
  The two events after which room \<open>gc\<close> can hold a session that is not finished:
  \<^verbatim>\<open>START_GAME\<close> for the room, and a \<^verbatim>\<open>CREATE_GAME\<close> whose random code is \<open>gc\<close>.
\<close>

fun restarts :: "string \<Rightarrow> env \<Rightarrow> event \<Rightarrow> bool" where
  "restarts gc e (Message ws (START_GAME c)) = (c = gc)"
| "restarts gc e (Message ws (CREATE_GAME n p)) = (randomCode e = gc)"
| "restarts gc e ev = False"

text \<open>Room \<open>gc\<close> holds a finished session or none.\<close>

definition finishedOrGone :: "string \<Rightarrow> server \<Rightarrow> bool" where
  "finishedOrGone gc st = (case games st gc of None \<Rightarrow> True | Some g \<Rightarrow> state g = Finished)"

subsection \<open>The Cabo countdown\<close>

text \<open>The connection is bound to no session, or to one of another room than \<open>gc\<close>.\<close>

definition boundElsewhere :: "string \<Rightarrow> server \<Rightarrow> nat \<Rightarrow> bool" where
  "boundElsewhere gc st ws =
     (case clients st ws of None \<Rightarrow> True | Some ci \<Rightarrow> gameCode ci \<noteq> gc)"

text \<open>Both slots a \<^verbatim>\<open>SWITCH_CARDS\<close> names read as cards (when both players are found).\<close>

definition readsCards :: "game \<Rightarrow> string \<Rightarrow> string \<Rightarrow> nat \<Rightarrow> nat \<Rightarrow> bool" where
  "readsCards g p opp i j =
     (case findPlayer (players g) p of
        None \<Rightarrow> True
      | Some a \<Rightarrow>
          (case findPlayer (players g) opp of
             None \<Rightarrow> True
           | Some b \<Rightarrow>
               getSlot (cards (players g ! a)) i \<noteq> None
             \<and> getSlot (cards (players g ! b)) j \<noteq> None))"

text \<open>
  The events under which the countdown of room \<open>gc\<close> is followed below: every request
  of a turn, every peek and every \<^verbatim>\<open>CALL_CABO\<close>; every request to another room; a
  \<^verbatim>\<open>SWITCH_CARDS\<close> in the room while it is Playing, between slots that hold cards. Left
  out are the events that change the players of the room or deal again (\<^verbatim>\<open>JOIN_GAME\<close>
  and \<^verbatim>\<open>START_GAME\<close> for the room, a \<^verbatim>\<open>CREATE_GAME\<close> whose code is the room's, a
  player of the room leaving), and a switch that stores \<^verbatim>\<open>undefined\<close> or follows the
  scoring.
\<close>

fun keepsCountdown :: "string \<Rightarrow> server \<Rightarrow> env \<Rightarrow> event \<Rightarrow> bool" where
  "keepsCountdown gc st e (Message ws (CREATE_GAME n p)) = (randomCode e \<noteq> gc)"
| "keepsCountdown gc st e (Message ws (JOIN_GAME n p c)) = (c \<noteq> gc)"
| "keepsCountdown gc st e (Message ws (START_GAME c)) = (c \<noteq> gc)"
| "keepsCountdown gc st e (Message ws (SWITCH_CARDS c p opp i j)) =
     (c \<noteq> gc \<or>
      (case games st gc of
         None \<Rightarrow> True
       | Some g \<Rightarrow> state g = Playing \<and> readsCards g p opp i j))"
| "keepsCountdown gc st e (Message ws LEAVE_GAME) = boundElsewhere gc st ws"
| "keepsCountdown gc st e (Close ws) = boundElsewhere gc st ws"
| "keepsCountdown gc st e ev = True"

fun countdownRun :: "string \<Rightarrow> (env \<times> event) list \<Rightarrow> server \<Rightarrow> bool" where
  "countdownRun gc [] st = True"
| "countdownRun gc (x # xs) st =
     (keepsCountdown gc st (fst x) (snd x)
      \<and> countdownRun gc xs (fst (step (fst x) (snd x) st)))"

text \<open>The guard of both resolve handlers: the requester has the turn and holds a card.\<close>

definition holdsTurn :: "game \<Rightarrow> string \<Rightarrow> bool" where
  "holdsTurn g p = (currentPlayerId g = Some p \<and> drawnCard g \<noteq> None)"

text \<open>
  A resolve step on room \<open>gc\<close> that passes the guard of its handler (and, for
  \<^verbatim>\<open>REPLACE_CARD\<close>, finds its player); \<open>resolves\<close> counts them along a run.
\<close>

fun resolvesNow :: "string \<Rightarrow> server \<Rightarrow> event \<Rightarrow> bool" where
  "resolvesNow gc st (Message ws (REPLACE_CARD c p i)) =
     (c = gc \<and> (case games st gc of
                  None \<Rightarrow> False
                | Some g \<Rightarrow> holdsTurn g p \<and> findPlayer (players g) p \<noteq> None))"
| "resolvesNow gc st (Message ws (DISCARD_DRAWN c p)) =
     (c = gc \<and> (case games st gc of None \<Rightarrow> False | Some g \<Rightarrow> holdsTurn g p))"
| "resolvesNow gc st ev = False"

fun resolves :: "string \<Rightarrow> (env \<times> event) list \<Rightarrow> server \<Rightarrow> nat" where
  "resolves gc [] st = 0"
| "resolves gc (x # xs) st =
     (if resolvesNow gc st (snd x) then 1 else 0) + resolves gc xs (fst (step (fst x) (snd x) st))"

text \<open>No hand holds an explicit \<^verbatim>\<open>undefined\<close> (holes are allowed).\<close>

definition noUndefined :: "game \<Rightarrow> bool" where
  "noUndefined g = list_all (\<lambda>q. list_all (\<lambda>s. s \<noteq> Undefined) (cards q)) (players g)"

text \<open>Every score is \<open>calculateScore\<close> of the hand beside it.\<close>

definition scored :: "game \<Rightarrow> bool" where
  "scored g = list_all (\<lambda>q. calculateScore (cards q) = Some (score q)) (players g)"

text \<open>
  The state of a session \<open>k\<close> resolve steps after Cabo was called, for players with the
  ids \<open>ids\<close> and the turn index \<open>t\<close> at the call.
\<close>

definition counting :: "string list \<Rightarrow> nat \<Rightarrow> nat \<Rightarrow> game \<Rightarrow> bool" where
  "counting ids t k g =
     (map pid (players g) = ids \<and> ids \<noteq> [] \<and> truthy (caboCallerId g) \<and> noUndefined g
      \<and> turnsAfterCabo g = k
      \<and> (k < length ids \<longrightarrow>
            state g = Playing \<and> currentTurn g = Some ((t + k) mod length ids)
          \<and> currentPlayerId g = Some (ids ! ((t + k) mod length ids)))
      \<and> (length ids \<le> k \<longrightarrow> state g = Finished \<and> scored g))"

subsection \<open>Replies\<close>

text \<open>An \<^verbatim>\<open>ERROR\<close> message sent to a connection.\<close>

fun isError :: "effect \<Rightarrow> bool" where
  "isError (Send ws (ERROR m)) = True"
| "isError x = False"

section \<open>Sessions to evaluate\<close>

text \<open>
  Concrete runs from the empty registry, for the instances and counterexamples below.
  The room code is always \<^verbatim>\<open>ABC123\<close> and every random index of the shuffle is 0, so the
  deal is: discard pile [A of spades]; alice (id \<^verbatim>\<open>p1\<close>) holds K, Q, J, 10 of clubs; bob
  (id \<^verbatim>\<open>p2\<close>) holds 9, 8, 7, 6 of clubs; the top of the deck is the 5 of clubs.
\<close>

definition demoEnv :: env where
  "demoEnv = \<lparr>randomCode = ''ABC123'', randomIndex = (\<lambda>i. 0)\<rparr>"

definition demoStart :: "(env \<times> event) list" where
  "demoStart =
     [(demoEnv, Message 1 (CREATE_GAME ''alice'' ''p1'')),
      (demoEnv, Message 2 (JOIN_GAME ''bob'' ''p2'' ''ABC123'')),
      (demoEnv, Message 1 (START_GAME ''ABC123''))]"

text \<open>One turn of each player: draw, then discard the drawn card.\<close>

definition demoRound :: "(env \<times> event) list" where
  "demoRound =
     [(demoEnv, Message 1 (DRAW_CARD ''ABC123'' ''p1'')),
      (demoEnv, Message 1 (DISCARD_DRAWN ''ABC123'' ''p1'')),
      (demoEnv, Message 2 (DRAW_CARD ''ABC123'' ''p2'')),
      (demoEnv, Message 2 (DISCARD_DRAWN ''ABC123'' ''p2''))]"

text \<open>The turn of alice alone.\<close>

definition demoTurn :: "(env \<times> event) list" where
  "demoTurn =
     [(demoEnv, Message 1 (DRAW_CARD ''ABC123'' ''p1'')),
      (demoEnv, Message 1 (DISCARD_DRAWN ''ABC123'' ''p1''))]"

definition demoCabo :: "(env \<times> event) list" where
  "demoCabo = [(demoEnv, Message 1 (CALL_CABO ''ABC123'' ''p1''))]"

definition demoPlaying :: server where
  "demoPlaying = run demoStart emptyServer"

definition demoHeld :: server where
  "demoHeld = run (demoStart @ [(demoEnv, Message 1 (DRAW_CARD ''ABC123'' ''p1''))]) emptyServer"

definition demoFinished :: server where
  "demoFinished = run (demoStart @ demoCabo @ demoRound) emptyServer"

text \<open>
  Before Cabo is called, \<^verbatim>\<open>SWITCH_CARDS\<close> names slot 7 of bob's four-slot hand: alice's
  slot 0 receives \<^verbatim>\<open>undefined\<close>.
\<close>

definition demoStalled :: "(env \<times> event) list" where
  "demoStalled =
     demoStart @ [(demoEnv, Message 1 (SWITCH_CARDS ''ABC123'' ''p1'' ''p2'' 0 7))]
       @ demoCabo @ demoRound"

text \<open>After 43 draws the deck of 43 cards is empty, and it is bob's turn.\<close>

definition demoDeckEmpty :: server where
  "demoDeckEmpty =
     run (demoStart @ concat (replicate 21 demoRound) @
          [(demoEnv, Message 1 (DRAW_CARD ''ABC123'' ''p1'')),
           (demoEnv, Message 1 (DISCARD_DRAWN ''ABC123'' ''p1''))]) emptyServer"

text \<open>
  alice takes the only discarded card and replaces slot 9, which pushes \<^verbatim>\<open>undefined\<close>;
  bob takes that, which empties the discard pile and leaves him without a held card.
\<close>

definition demoDiscardEmpty :: server where
  "demoDiscardEmpty =
     run (demoStart @
          [(demoEnv, Message 1 (TAKE_DISCARD ''ABC123'' ''p1'')),
           (demoEnv, Message 1 (REPLACE_CARD ''ABC123'' ''p1'' 9)),
           (demoEnv, Message 2 (TAKE_DISCARD ''ABC123'' ''p2''))]) emptyServer"

definition demoFull :: server where
  "demoFull =
     run [(demoEnv, Message 1 (CREATE_GAME ''alice'' ''p1'')),
          (demoEnv, Message 2 (JOIN_GAME ''bob'' ''p2'' ''ABC123'')),
          (demoEnv, Message 3 (JOIN_GAME ''carol'' ''p3'' ''ABC123'')),
          (demoEnv, Message 4 (JOIN_GAME ''dave'' ''p4'' ''ABC123'')),
          (demoEnv, Message 5 (JOIN_GAME ''erin'' ''p5'' ''ABC123'')),
          (demoEnv, Message 6 (JOIN_GAME ''frank'' ''p6'' ''ABC123'')),
          (demoEnv, Message 7 (JOIN_GAME ''grace'' ''p7'' ''ABC123'')),
          (demoEnv, Message 8 (JOIN_GAME ''heidi'' ''p8'' ''ABC123''))] emptyServer"

text \<open>
  After the deal alice draws and replaces her slot 3, and bob has slot 0 of alice and
  his own slot 3 switched.
\<close>

definition demoInRange :: "(env \<times> event) list" where
  "demoInRange =
     demoStart @
       [(demoEnv, Message 1 (DRAW_CARD ''ABC123'' ''p1'')),
        (demoEnv, Message 1 (REPLACE_CARD ''ABC123'' ''p1'' 3)),
        (demoEnv, Message 2 (SWITCH_CARDS ''ABC123'' ''p2'' ''p1'' 3 0))]"

text \<open>
  Requests that do not disturb a countdown in room \<^verbatim>\<open>ABC123\<close>: a switch between two
  slots that hold cards, a room created under another code, a second Cabo call; then
  the turns of both players.
\<close>

definition demoEnv2 :: env where
  "demoEnv2 = \<lparr>randomCode = ''XYZ789'', randomIndex = (\<lambda>i. 0)\<rparr>"

definition demoBusy :: "(env \<times> event) list" where
  "demoBusy =
     [(demoEnv, Message 2 (SWITCH_CARDS ''ABC123'' ''p2'' ''p1'' 3 0)),
      (demoEnv2, Message 3 (CREATE_GAME ''carol'' ''p3'')),
      (demoEnv, Message 2 (CALL_CABO ''ABC123'' ''p2''))] @ demoRound"

text \<open>Requests sent to the finished session: none of them starts it again.\<close>

definition demoAfter :: "(env \<times> event) list" where
  "demoAfter =
     [(demoEnv, Message 2 (DRAW_CARD ''ABC123'' ''p2'')),
      (demoEnv, Message 2 (REPLACE_CARD ''ABC123'' ''p2'' 9)),
      (demoEnv, Message 3 (JOIN_GAME ''carol'' ''p3'' ''ABC123'')),
      (demoEnv, Message 1 (CALL_CABO ''ABC123'' ''p1'')),
      (demoEnv, Close 1)]"

text \<open>The session registered under a code (every use below is on a code that is registered).\<close>

definition gameAt :: "string \<Rightarrow> server \<Rightarrow> game" where
  "gameAt gc st = the (games st gc)"

section \<open>Scoring\<close>

lemma addCard_tableValue: "addCard tot c = tot + tableValue c"
  by (simp add: addCard_def isRed_def split: rank.split)

lemma scoreLoop_cards: "scoreLoop (map Crd cs) tot = Some (tot + tableScore cs)"
  by (induction cs arbitrary: tot) (simp_all add: tableScore_def addCard_tableValue)

section \<open>Basic facts\<close>

lemma run_invariant:
  assumes "\<And>st e ev. P st \<Longrightarrow> L st ev \<Longrightarrow> P (fst (step e ev st))"
  shows "P st \<Longrightarrow> legalRun L evs st \<Longrightarrow> P (run evs st)"
proof (induction evs arbitrary: st)
  case Nil
  then show ?case by simp
next
  case (Cons x xs)
  have "P (fst (step (fst x) (snd x) st))"
    using Cons.prems assms by simp
  then show ?case using Cons by simp
qed

lemma onGame_Some:
  "games st gc = Some g \<Longrightarrow>
   onGame gc m f st = (st\<lparr>games := (games st)(gc \<mapsto> fst (f g))\<rparr>, snd (f g))"
  by (simp add: onGame_def)

lemma same_game: "games st gc = Some g \<Longrightarrow> st\<lparr>games := (games st)(gc \<mapsto> g)\<rparr> = st"
  by (simp add: map_upd_triv)

lemma allGames_empty: "allGames I emptyServer"
  by (simp add: allGames_def emptyServer_def)

lemma allGames_onGame:
  assumes "allGames I st" and "\<And>g. games st gc = Some g \<Longrightarrow> I g \<Longrightarrow> I (fst (f g))"
  shows "allGames I (fst (onGame gc m f st))"
  using assms by (cases "games st gc") (auto simp: allGames_def onGame_def)

lemma allGames_readGame: "allGames I st \<Longrightarrow> allGames I (fst (readGame gc f st))"
  by (cases "games st gc") (simp_all add: readGame_def)

lemma allGames_create:
  "allGames I st \<Longrightarrow> I (newGame (randomCode e) n p) \<Longrightarrow> allGames I (fst (createGame e ws n p st))"
  by (simp add: allGames_def createGame_def Let_def)

lemma allGames_join:
  assumes "allGames I st"
    and "\<And>g. games st gc = Some g \<Longrightarrow> I g \<Longrightarrow> length (players g) < 8 \<Longrightarrow>
           I (g\<lparr>players := players g @ [newPlayer p n False]\<rparr>)"
  shows "allGames I (fst (joinGame ws n p gc st))"
  using assms by (cases "games st gc") (auto simp: allGames_def joinGame_def Let_def)

lemma allGames_remove:
  assumes "allGames I st"
    and "\<And>ci g ps. clients st ws = Some ci \<Longrightarrow> games st (gameCode ci) = Some g \<Longrightarrow> I g \<Longrightarrow>
           ps = filter (\<lambda>q. pid q \<noteq> playerId ci) (players g) \<Longrightarrow> ps \<noteq> [] \<Longrightarrow>
           I (g\<lparr>players := ps\<rparr>) \<and>
           I (g\<lparr>players := ps[0 := (ps ! 0)\<lparr>isHost := True\<rparr>], host := pid (ps ! 0)\<rparr>)"
  shows "allGames I (fst (removePlayer ws st))"
proof (cases "clients st ws")
  case None
  then show ?thesis using assms(1) by (simp add: removePlayer_def)
next
  case (Some ci)
  show ?thesis
  proof (cases "games st (gameCode ci)")
    case None
    then show ?thesis using assms(1) Some by (simp add: removePlayer_def allGames_def)
  next
    case (Some g)
    have Ig: "I g" using assms(1) Some by (simp add: allGames_def)
    show ?thesis
    proof (cases "filter (\<lambda>q. pid q \<noteq> playerId ci) (players g) = []")
      case True
      then show ?thesis using assms(1) Some \<open>clients st ws = Some ci\<close>
        by (simp add: removePlayer_def allGames_def)
    next
      case False
      from assms(2)[OF \<open>clients st ws = Some ci\<close> Some Ig refl False]
      show ?thesis using assms(1) Some \<open>clients st ws = Some ci\<close> False
        by (simp add: removePlayer_def allGames_def Let_def)
    qed
  qed
qed


section \<open>Slots\<close>

lemma toSlot_read: "(case toSlot v of Crd c \<Rightarrow> Some c | _ \<Rightarrow> None) = v"
  by (cases v) (simp_all add: toSlot_def)

lemma getSlot_setSlot: "getSlot (setSlot xs i v) s = (if s = i then v else getSlot xs s)"
  by (auto simp: getSlot_def setSlot_def toSlot_read nth_append nth_Cons')

lemma length_setSlot_inrange: "i < length xs \<Longrightarrow> length (setSlot xs i v) = length xs"
  by (simp add: setSlot_def)

lemma findPlayer_Some: "findPlayer ps x = Some k \<Longrightarrow> k < length ps \<and> pid (ps ! k) = x"
  by (induction ps arbitrary: k) (auto split: if_splits)

section \<open>What the end of a turn changes\<close>

lemma scoreAll_cards: "map cards (fst (scoreAll ps)) = map cards ps"
  by (induction ps) (auto split: option.splits simp: Let_def)

lemma scoreAll_pid: "map pid (fst (scoreAll ps)) = map pid ps"
  by (induction ps) (auto split: option.splits simp: Let_def)

lemma fst_endTurn:
  "fst (endTurn ws gc mk g) =
     (case caboCheck g of Threw g1 \<Rightarrow> g1 | Done g1 \<Rightarrow> outGame (advanceTurn g1))"
  by (simp add: endTurn_def split: outcome.splits)

lemma caboCheck_frame:
  "deck (outGame (caboCheck g)) = deck g"
  "discardPile (outGame (caboCheck g)) = discardPile g"
  "drawnCard (outGame (caboCheck g)) = drawnCard g"
  "map cards (players (outGame (caboCheck g))) = map cards (players g)"
  "state (outGame (caboCheck g)) = state g \<or> state (outGame (caboCheck g)) = Finished"
  by (simp_all add: caboCheck_def Let_def scoreAll_cards)

lemma advanceTurn_frame:
  "deck (outGame (advanceTurn g)) = deck g"
  "discardPile (outGame (advanceTurn g)) = discardPile g"
  "drawnCard (outGame (advanceTurn g)) = drawnCard g"
  "players (outGame (advanceTurn g)) = players g"
  "state (outGame (advanceTurn g)) = state g"
  by (simp_all add: advanceTurn_def nextTurn_def Let_def split: option.splits)

lemma endTurn_outGame:
  "fst (endTurn ws gc mk g) = outGame (caboCheck g) \<or>
   fst (endTurn ws gc mk g) = outGame (advanceTurn (outGame (caboCheck g)))"
  by (cases "caboCheck g") (simp_all add: fst_endTurn)

lemma endTurn_cards: "map cards (players (fst (endTurn ws gc mk g))) = map cards (players g)"
  using endTurn_outGame[of ws gc mk g] by (auto simp: caboCheck_frame advanceTurn_frame)

lemma endTurn_state:
  "state (fst (endTurn ws gc mk g)) = state g \<or> state (fst (endTurn ws gc mk g)) = Finished"
  using endTurn_outGame[of ws gc mk g] caboCheck_frame(5)[of g]
  by (auto simp: advanceTurn_frame)

lemma endTurn_piles:
  "deck (fst (endTurn ws gc mk g)) = deck g"
  "discardPile (fst (endTurn ws gc mk g)) = discardPile g"
  "drawnCard (fst (endTurn ws gc mk g)) = drawnCard g"
  using endTurn_outGame[of ws gc mk g] by (auto simp: caboCheck_frame advanceTurn_frame)

lemma handLengths_cards:
  assumes "map cards (players g') = map cards (players g)"
  shows "handLengths g' = handLengths g"
proof -
  have "map length (map cards (players g')) = map length (map cards (players g))"
    using assms by simp
  then show ?thesis by (simp add: handLengths_def comp_def)
qed

lemma endTurn_lengths: "handLengths (fst (endTurn ws gc mk g)) = handLengths g"
  by (rule handLengths_cards) (rule endTurn_cards)

section \<open>The handlers, case by case\<close>

lemma replaceCard_cases:
  "fst (replaceCard ws gc p i g) = g \<or>
   (\<exists>k. findPlayer (players g) p = Some k \<and> drawnCard g \<noteq> None \<and> currentPlayerId g = Some p \<and>
     fst (replaceCard ws gc p i g) = fst (endTurn ws gc CARD_REPLACED (putCard k i g)))"
  by (cases "findPlayer (players g) p") (simp_all add: replaceCard_def)

lemma discardDrawn_cases:
  "fst (discardDrawn ws gc p g) = g \<or>
   (drawnCard g \<noteq> None \<and> currentPlayerId g = Some p \<and>
     fst (discardDrawn ws gc p g) = fst (endTurn ws gc CARD_DISCARDED (discardHeld g)))"
  by (simp add: discardDrawn_def)

lemma switchCards_cases:
  "fst (switchCards ws gc p opp i j g) = g \<or>
   (\<exists>a b. findPlayer (players g) p = Some a \<and> findPlayer (players g) opp = Some b \<and>
     fst (switchCards ws gc p opp i j g) = swapSlots a b i j g)"
  by (cases "findPlayer (players g) p"; cases "findPlayer (players g) opp")
     (simp_all add: switchCards_def Let_def)

lemma drawCard_cases:
  "fst (drawCard ws gc p g) = g \<or>
   (currentPlayerId g = Some p \<and> drawnCard g = None \<and>
    fst (drawCard ws gc p g) = g\<lparr>deck := snd (pop (deck g)), drawnCard := fst (pop (deck g))\<rparr>)"
  by (simp add: drawCard_def Let_def)

lemma takeDiscard_cases:
  "fst (takeDiscard ws gc p g) = g \<or>
   (currentPlayerId g = Some p \<and> drawnCard g = None \<and>
    fst (takeDiscard ws gc p g) =
      g\<lparr>discardPile := snd (pop (discardPile g)),
        drawnCard := (case fst (pop (discardPile g)) of None \<Rightarrow> None | Some v \<Rightarrow> v)\<rparr>)"
  by (simp add: takeDiscard_def Let_def)

lemma callCabo_cases:
  "fst (callCabo ws gc p g) = g \<or>
   (currentPlayerId g = Some p \<and> \<not> truthy (caboCallerId g) \<and>
    fst (callCabo ws gc p g) = g\<lparr>caboCallerId := Some p, turnsAfterCabo := 0\<rparr>)"
  by (cases "findPlayer (players g) p") (simp_all add: callCabo_def Let_def)

lemma startGame_cases:
  "fst (startGame e ws gc g) = g \<or>
   (2 \<le> length (players g) \<and>
    fst (startGame e ws gc g) =
      g\<lparr>state := Playing,
        deck := snd (dealCards (players g) (snd (pop (createDeck (randomIndex e))))),
        discardPile := [fst (pop (createDeck (randomIndex e)))],
        currentPlayerId := Some (pid (players g ! 0)),
        players := fst (dealCards (players g) (snd (pop (createDeck (randomIndex e)))))\<rparr>)"
  by (simp add: startGame_def Let_def)

section \<open>Hand sizes\<close>

lemma update_same_length:
  "k < length ps \<Longrightarrow> length c = length (cards (ps ! k)) \<Longrightarrow>
   map (\<lambda>q. length (cards q)) (ps[k := (ps ! k)\<lparr>cards := c\<rparr>]) = map (\<lambda>q. length (cards q)) ps"
  by (rule nth_equalityI) (simp_all add: nth_list_update)

lemma putCard_lengths:
  "k < length (players g) \<Longrightarrow> i < length (cards (players g ! k)) \<Longrightarrow>
   handLengths (putCard k i g) = handLengths g"
  by (simp add: putCard_def Let_def handLengths_def update_same_length length_setSlot_inrange)

lemma swapSlots_lengths:
  assumes "a < length (players g)" "b < length (players g)"
    and "i < length (cards (players g ! a))" "j < length (cards (players g ! b))"
  shows "handLengths (swapSlots a b i j g) = handLengths g"
proof -
  let ?ps1 = "(players g)[a := (players g ! a)\<lparr>cards := setSlot (cards (players g ! a)) i (getSlot (cards (players g ! b)) j)\<rparr>]"
  have 1: "map (\<lambda>q. length (cards q)) ?ps1 = map (\<lambda>q. length (cards q)) (players g)"
    using assms by (simp add: update_same_length length_setSlot_inrange)
  have b1: "b < length ?ps1" using assms by simp
  have "length (cards (?ps1 ! b)) = length (cards (players g ! b))"
    using assms by (auto simp: nth_list_update length_setSlot_inrange)
  then have j1: "j < length (cards (?ps1 ! b))" using assms by simp
  have 2: "map (\<lambda>q. length (cards q)) (?ps1[b := (?ps1 ! b)\<lparr>cards := setSlot (cards (?ps1 ! b)) j (getSlot (cards (players g ! a)) i)\<rparr>])
        = map (\<lambda>q. length (cards q)) ?ps1"
    using b1 j1 by (intro update_same_length) (simp_all add: length_setSlot_inrange)
  show ?thesis
    unfolding handLengths_def swapSlots_def Let_def using 1 2 by simp
qed

lemma hands4_nth:
  "hands4 g \<Longrightarrow> state g = Playing \<Longrightarrow> k < length (players g) \<Longrightarrow> length (cards (players g ! k)) = 4"
  by (simp add: hands4_def handLengths_def)

lemma hands4_endTurn: "hands4 g \<Longrightarrow> hands4 (fst (endTurn ws gc mk g))"
  using endTurn_state[of ws gc mk g] by (auto simp: hands4_def endTurn_lengths)

lemma hands4_replace:
  assumes "hands4 g" "i < 4"
  shows "hands4 (fst (replaceCard ws gc p i g))"
proof -
  from replaceCard_cases[of ws gc p i g] show ?thesis
  proof (elim disjE exE conjE)
    assume "fst (replaceCard ws gc p i g) = g"
    then show ?thesis using assms by simp
  next
    fix k
    assume k: "findPlayer (players g) p = Some k"
      and eq: "fst (replaceCard ws gc p i g) = fst (endTurn ws gc CARD_REPLACED (putCard k i g))"
    have kl: "k < length (players g)" using k findPlayer_Some by blast
    have "hands4 (putCard k i g)"
    proof (cases "state g = Playing")
      case True
      then have "handLengths (putCard k i g) = handLengths g"
        using assms kl hands4_nth[OF assms(1) True kl] by (intro putCard_lengths) simp_all
      moreover have "state (putCard k i g) = state g" by (simp add: putCard_def Let_def)
      ultimately show ?thesis using assms(1) by (simp add: hands4_def)
    next
      case False
      then show ?thesis by (simp add: hands4_def putCard_def Let_def)
    qed
    then show ?thesis using eq hands4_endTurn by simp
  qed
qed

lemma hands4_discard: "hands4 g \<Longrightarrow> hands4 (fst (discardDrawn ws gc p g))"
proof -
  assume h: "hands4 g"
  have "hands4 (discardHeld g)" using h by (simp add: hands4_def handLengths_def discardHeld_def)
  then show ?thesis using discardDrawn_cases[of ws gc p g] h hands4_endTurn by auto
qed

lemma hands4_switch:
  assumes "hands4 g" "i < 4" "j < 4"
  shows "hands4 (fst (switchCards ws gc p opp i j g))"
proof -
  from switchCards_cases[of ws gc p opp i j g] show ?thesis
  proof (elim disjE exE conjE)
    assume "fst (switchCards ws gc p opp i j g) = g"
    then show ?thesis using assms by simp
  next
    fix a b
    assume a: "findPlayer (players g) p = Some a" and b: "findPlayer (players g) opp = Some b"
      and eq: "fst (switchCards ws gc p opp i j g) = swapSlots a b i j g"
    have al: "a < length (players g)" and bl: "b < length (players g)"
      using a b findPlayer_Some by blast+
    have st: "state (swapSlots a b i j g) = state g" by (simp add: swapSlots_def Let_def)
    show ?thesis
    proof (cases "state g = Playing")
      case True
      have "handLengths (swapSlots a b i j g) = handLengths g"
        using assms al bl hands4_nth[OF assms(1) True al] hands4_nth[OF assms(1) True bl]
        by (intro swapSlots_lengths) simp_all
      then show ?thesis using eq st assms(1) by (simp add: hands4_def)
    next
      case False
      then show ?thesis using eq st by (simp add: hands4_def)
    qed
  qed
qed

lemma hands4_draw: "hands4 g \<Longrightarrow> hands4 (fst (drawCard ws gc p g))"
  using drawCard_cases[of ws gc p g] by (auto simp: hands4_def handLengths_def)

lemma hands4_take: "hands4 g \<Longrightarrow> hands4 (fst (takeDiscard ws gc p g))"
  using takeDiscard_cases[of ws gc p g] by (auto simp: hands4_def handLengths_def)

lemma hands4_cabo: "hands4 g \<Longrightarrow> hands4 (fst (callCabo ws gc p g))"
  using callCabo_cases[of ws gc p g] by (auto simp: hands4_def handLengths_def)

lemma length_deal4: "length (fst (deal4 d)) = 4"
  by (simp add: deal4_def Let_def)

lemma dealCards_len4: "q \<in> set (fst (dealCards ps d)) \<Longrightarrow> length (cards q) = 4"
  by (induction ps arbitrary: d) (auto simp: Let_def length_deal4)

lemma hands4_start: "hands4 g \<Longrightarrow> hands4 (fst (startGame e ws gc g))"
  using startGame_cases[of e ws gc g] by (auto simp: hands4_def handLengths_def dealCards_len4)

lemma hands4_new: "hands4 (newGame c n p)"
  by (simp add: hands4_def newGame_def)

lemma promote_lengths:
  "map (\<lambda>q. length (cards q)) (ps[0 := (ps ! 0)\<lparr>isHost := True\<rparr>]) = map (\<lambda>q. length (cards q)) ps"
  by (cases ps) simp_all

lemma hands4_remove:
  assumes "hands4 g" "ps = filter P (players g)"
  shows "hands4 (g\<lparr>players := ps\<rparr>) \<and>
         hands4 (g\<lparr>players := ps[0 := (ps ! 0)\<lparr>isHost := True\<rparr>], host := pid (ps ! 0)\<rparr>)"
  using assms by (auto simp: hands4_def handLengths_def promote_lengths)

lemma hands4_step:
  assumes "allGames hands4 st" "slotsInRange st ev"
  shows "allGames hands4 (fst (step e ev st))"
proof (cases ev)
  case (Close ws)
  show ?thesis unfolding Close step.simps
    by (rule allGames_remove[OF assms(1)]) (rule hands4_remove)
next
  case (Message ws r)
  show ?thesis
  proof (cases r)
    case (CREATE_GAME n p)
    then show ?thesis using Message assms by (simp add: allGames_create hands4_new)
  next
    case (JOIN_GAME n p gc)
    have "allGames hands4 (fst (joinGame ws n p gc st))"
      using assms(2) unfolding Message JOIN_GAME
      by (intro allGames_join[OF assms(1)]) (simp add: hands4_def)
    then show ?thesis using Message JOIN_GAME by simp
  next
    case (START_GAME gc)
    then show ?thesis using Message assms by (simp add: allGames_onGame hands4_start)
  next
    case (DRAW_CARD gc p)
    then show ?thesis using Message assms by (simp add: allGames_onGame hands4_draw)
  next
    case (TAKE_DISCARD gc p)
    then show ?thesis using Message assms by (simp add: allGames_onGame hands4_take)
  next
    case (REPLACE_CARD gc p i)
    then show ?thesis using Message assms by (simp add: allGames_onGame hands4_replace)
  next
    case (DISCARD_DRAWN gc p)
    then show ?thesis using Message assms by (simp add: allGames_onGame hands4_discard)
  next
    case (CALL_CABO gc p)
    then show ?thesis using Message assms by (simp add: allGames_onGame hands4_cabo)
  next
    case (PEEK_OWN_CARD gc p i)
    then show ?thesis using Message assms by (simp add: allGames_readGame)
  next
    case (PEEK_OPPONENT_CARD gc p opp i)
    then show ?thesis using Message assms by (simp add: allGames_readGame)
  next
    case (SWITCH_CARDS gc p opp i j)
    then show ?thesis using Message assms by (simp add: allGames_onGame hands4_switch)
  next
    case LEAVE_GAME
    have "allGames hands4 (fst (removePlayer ws st))"
      by (rule allGames_remove[OF assms(1)]) (rule hands4_remove)
    then show ?thesis using Message LEAVE_GAME by (simp add: Let_def)
  qed
qed

section \<open>The deck\<close>

lemma length_shuffle: "length (shuffle rnd k d) = length d"
  by (induction k arbitrary: d) (simp_all add: swap_def)

lemma length_createDeck: "length (createDeck rnd) = 52"
  by (simp add: createDeck_def length_shuffle) (simp add: orderedDeck_def suits_def cvalues_def)

lemma length_snd_pop: "length (snd (pop d)) = length d - 1"
  by (simp add: pop_def)

lemma fst_pop_Some: "d \<noteq> [] \<Longrightarrow> fst (pop d) \<noteq> None"
  by (simp add: pop_def)

lemma deal4_enough:
  "4 \<le> length d \<Longrightarrow> list_all isCard (fst (deal4 d)) \<and> length (snd (deal4 d)) = length d - 4"
proof -
  assume 4: "4 \<le> length d"
  have p: "\<And>x. 1 \<le> length x \<Longrightarrow> isCard (toSlot (fst (pop x)))"
    by (auto simp: pop_def toSlot_def)
  show ?thesis using 4 by (simp add: deal4_def Let_def length_snd_pop p)
qed

lemma dealCards_enough:
  "4 * length ps \<le> length d \<Longrightarrow>
   list_all (\<lambda>h. list_all isCard h) (map cards (fst (dealCards ps d)))
   \<and> length (snd (dealCards ps d)) + 4 * length ps = length d
   \<and> sum_list (map (\<lambda>q. length (cards q)) (fst (dealCards ps d))) = 4 * length ps
   \<and> length (fst (dealCards ps d)) = length ps"
proof (induction ps arbitrary: d)
  case Nil
  then show ?case by simp
next
  case (Cons p ps)
  have 4: "4 \<le> length d" using Cons.prems by simp
  have "4 * length ps \<le> length (snd (deal4 d))"
    using Cons.prems deal4_enough[OF 4] by simp
  from Cons.IH[OF this] deal4_enough[OF 4] 4 show ?case
    by (auto simp: Let_def length_deal4)
qed


section \<open>Cards accounted for\<close>

lemma accounted_frame:
  assumes "accounted g"
    and "map cards (players g') = map cards (players g)"
    and "deck g' = deck g" "discardPile g' = discardPile g" "drawnCard g' = drawnCard g"
    and "state g \<noteq> Lobby" "state g' \<noteq> Lobby"
  shows "accounted g'"
proof -
  have "length (map cards (players g')) = length (map cards (players g))"
    using assms(2) by simp
  then have l: "length (players g') = length (players g)" by simp
  have h: "handLengths g' = handLengths g" using assms(2) by (rule handLengths_cards)
  show ?thesis
    using assms l h by (simp add: accounted_def pileSum_def held_def)
qed

lemma accounted_endTurn:
  assumes "accounted g" "state g \<noteq> Lobby"
  shows "accounted (fst (endTurn ws gc mk g))"
  using assms endTurn_state[of ws gc mk g]
  by (intro accounted_frame[OF assms(1)]) (auto simp: endTurn_cards endTurn_piles)

lemma accounted_playing: "accounted g \<Longrightarrow> currentPlayerId g = Some p \<Longrightarrow> state g \<noteq> Lobby"
  by (auto simp: accounted_def)

lemma accounted_new: "accounted (newGame c n p)"
  by (simp add: accounted_def newGame_def newPlayer_def)

lemma accounted_join:
  "accounted g \<Longrightarrow> length (players g) < 8 \<Longrightarrow>
   accounted (g\<lparr>players := players g @ [newPlayer p n False]\<rparr>)"
  by (simp add: accounted_def newPlayer_def pileSum_def handLengths_def held_def)

lemma accounted_draw: "accounted g \<Longrightarrow> accounted (fst (drawCard ws gc p g))"
  using drawCard_cases[of ws gc p g]
  by (cases "deck g" rule: rev_cases)
     (auto simp: accounted_def pileSum_def handLengths_def held_def pop_def)

lemma accounted_take: "accounted g \<Longrightarrow> accounted (fst (takeDiscard ws gc p g))"
  using takeDiscard_cases[of ws gc p g]
  by (cases "discardPile g" rule: rev_cases)
     (auto simp: accounted_def pileSum_def handLengths_def held_def pop_def)

lemma accounted_cabo: "accounted g \<Longrightarrow> accounted (fst (callCabo ws gc p g))"
  using callCabo_cases[of ws gc p g]
  by (auto simp: accounted_def pileSum_def handLengths_def held_def)

lemma accounted_discardHeld:
  "accounted g \<Longrightarrow> drawnCard g \<noteq> None \<Longrightarrow> state g \<noteq> Lobby \<Longrightarrow> accounted (discardHeld g)"
  by (auto simp: accounted_def pileSum_def handLengths_def held_def discardHeld_def)

lemma accounted_discard: "accounted g \<Longrightarrow> accounted (fst (discardDrawn ws gc p g))"
proof -
  assume a: "accounted g"
  from discardDrawn_cases[of ws gc p g] show ?thesis
  proof (elim disjE conjE)
    assume "fst (discardDrawn ws gc p g) = g"
    then show ?thesis using a by simp
  next
    assume d: "drawnCard g \<noteq> None" and c: "currentPlayerId g = Some p"
      and eq: "fst (discardDrawn ws gc p g) = fst (endTurn ws gc CARD_DISCARDED (discardHeld g))"
    have s: "state g \<noteq> Lobby" using a c by (rule accounted_playing)
    have "accounted (discardHeld g)" using a d s by (rule accounted_discardHeld)
    moreover have "state (discardHeld g) \<noteq> Lobby" using s by (simp add: discardHeld_def)
    ultimately show ?thesis using eq accounted_endTurn by simp
  qed
qed


lemma list_all_update: "list_all P xs \<Longrightarrow> P y \<Longrightarrow> list_all P (xs[k := y])"
  by (induction xs arbitrary: k) (auto split: nat.splits)

lemma getSlot_isCard: "list_all isCard xs \<Longrightarrow> i < length xs \<Longrightarrow> getSlot xs i \<noteq> None"
proof -
  assume "list_all isCard xs" "i < length xs"
  then have "isCard (xs ! i)" by (simp add: list_all_length)
  then show ?thesis using \<open>i < length xs\<close> by (cases "xs ! i") (simp_all add: getSlot_def)
qed

lemma setSlot_isCard:
  "list_all isCard xs \<Longrightarrow> i < length xs \<Longrightarrow> v \<noteq> None \<Longrightarrow> list_all isCard (setSlot xs i v)"
  by (cases v) (simp_all add: setSlot_def toSlot_def list_all_update)

lemma hand_nth: "list_all (\<lambda>h. list_all isCard h) (map cards ps) \<Longrightarrow> k < length ps \<Longrightarrow> list_all isCard (cards (ps ! k))"
  by (simp add: list_all_length)

lemma hands_update:
  assumes "list_all (\<lambda>h. list_all isCard h) (map cards ps)" "k < length ps"
    and "i < length (cards (ps ! k))" "v \<noteq> None"
  shows "list_all (\<lambda>h. list_all isCard h) (map cards (ps[k := (ps ! k)\<lparr>cards := setSlot (cards (ps ! k)) i v\<rparr>]))"
  using assms by (simp add: map_update list_all_update setSlot_isCard hand_nth)

lemma accounted_putCard:
  assumes "accounted g" "k < length (players g)" "i < length (cards (players g ! k))"
    and "drawnCard g \<noteq> None" "state g \<noteq> Lobby"
  shows "accounted (putCard k i g)"
proof -
  have hs: "list_all (\<lambda>h. list_all isCard h) (map cards (players g))"
    using assms(1) by (simp add: accounted_def)
  have old: "getSlot (cards (players g ! k)) i \<noteq> None"
    using hand_nth[OF hs assms(2)] assms(3) by (rule getSlot_isCard)
  have new: "list_all (\<lambda>h. list_all isCard h) (map cards (players (putCard k i g)))"
    using hands_update[OF hs assms(2,3,4)] by (simp add: putCard_def Let_def)
  have len: "handLengths (putCard k i g) = handLengths g"
    using assms(2,3) by (rule putCard_lengths)
  have rest: "deck (putCard k i g) = deck g" "state (putCard k i g) = state g"
    "drawnCard (putCard k i g) = None" "length (players (putCard k i g)) = length (players g)"
    "discardPile (putCard k i g) = discardPile g @ [getSlot (cards (players g ! k)) i]"
    by (simp_all add: putCard_def Let_def)
  show ?thesis
    using assms(1,4,5) old new len rest
    by (auto simp: accounted_def pileSum_def held_def)
qed

lemma accounted_replace:
  assumes "accounted g"
    and "\<And>k. findPlayer (players g) p = Some k \<Longrightarrow> i < length (cards (players g ! k))"
  shows "accounted (fst (replaceCard ws gc p i g))"
proof -
  from replaceCard_cases[of ws gc p i g] show ?thesis
  proof (elim disjE exE conjE)
    assume "fst (replaceCard ws gc p i g) = g"
    then show ?thesis using assms by simp
  next
    fix k
    assume k: "findPlayer (players g) p = Some k" and d: "drawnCard g \<noteq> None"
      and c: "currentPlayerId g = Some p"
      and eq: "fst (replaceCard ws gc p i g) = fst (endTurn ws gc CARD_REPLACED (putCard k i g))"
    have kl: "k < length (players g)" using k findPlayer_Some by blast
    have s: "state g \<noteq> Lobby" using assms(1) c by (rule accounted_playing)
    have "accounted (putCard k i g)"
      using assms(1) kl assms(2)[OF k] d s by (rule accounted_putCard)
    moreover have "state (putCard k i g) \<noteq> Lobby" using s by (simp add: putCard_def Let_def)
    ultimately show ?thesis using eq accounted_endTurn by simp
  qed
qed

lemma accounted_swapSlots:
  assumes "accounted g" "a < length (players g)" "b < length (players g)"
    and "i < length (cards (players g ! a))" "j < length (cards (players g ! b))"
  shows "accounted (swapSlots a b i j g)"
proof -
  let ?v = "getSlot (cards (players g ! b)) j"
  let ?t = "getSlot (cards (players g ! a)) i"
  let ?ps1 = "(players g)[a := (players g ! a)\<lparr>cards := setSlot (cards (players g ! a)) i ?v\<rparr>]"
  have hs: "list_all (\<lambda>h. list_all isCard h) (map cards (players g))"
    using assms(1) by (simp add: accounted_def)
  have v: "?v \<noteq> None" using hand_nth[OF hs assms(3)] assms(5) by (rule getSlot_isCard)
  have t: "?t \<noteq> None" using hand_nth[OF hs assms(2)] assms(4) by (rule getSlot_isCard)
  have hs1: "list_all (\<lambda>h. list_all isCard h) (map cards ?ps1)"
    using hs assms(2,4) v by (rule hands_update)
  have b1: "b < length ?ps1" using assms(3) by simp
  have j1: "j < length (cards (?ps1 ! b))"
    using assms by (auto simp: nth_list_update length_setSlot_inrange)
  have hs2: "list_all (\<lambda>h. list_all isCard h) (map cards (players (swapSlots a b i j g)))"
    using hands_update[OF hs1 b1 j1 t] by (simp add: swapSlots_def Let_def)
  have len: "handLengths (swapSlots a b i j g) = handLengths g"
    using assms(2-5) by (rule swapSlots_lengths)
  have rest: "deck (swapSlots a b i j g) = deck g" "state (swapSlots a b i j g) = state g"
    "drawnCard (swapSlots a b i j g) = drawnCard g"
    "length (players (swapSlots a b i j g)) = length (players g)"
    "discardPile (swapSlots a b i j g) = discardPile g"
    "currentPlayerId (swapSlots a b i j g) = currentPlayerId g"
    by (simp_all add: swapSlots_def Let_def)
  show ?thesis
    using assms(1) hs2 len rest by (auto simp: accounted_def pileSum_def held_def)
qed

lemma accounted_switch:
  assumes "accounted g"
    and "\<And>a b. findPlayer (players g) p = Some a \<Longrightarrow> findPlayer (players g) opp = Some b \<Longrightarrow>
           i < length (cards (players g ! a)) \<and> j < length (cards (players g ! b))"
  shows "accounted (fst (switchCards ws gc p opp i j g))"
proof -
  from switchCards_cases[of ws gc p opp i j g] show ?thesis
  proof (elim disjE exE conjE)
    assume "fst (switchCards ws gc p opp i j g) = g"
    then show ?thesis using assms by simp
  next
    fix a b
    assume a: "findPlayer (players g) p = Some a" and b: "findPlayer (players g) opp = Some b"
      and eq: "fst (switchCards ws gc p opp i j g) = swapSlots a b i j g"
    have al: "a < length (players g)" and bl: "b < length (players g)"
      using a b findPlayer_Some by blast+
    show ?thesis
      unfolding eq using assms(1) al bl assms(2)[OF a b] by (intro accounted_swapSlots) simp_all
  qed
qed

lemma accounted_start:
  assumes "accounted g" "state g = Lobby"
  shows "accounted (fst (startGame e ws gc g))"
proof -
  from startGame_cases[of e ws gc g] show ?thesis
  proof (elim disjE conjE)
    assume "fst (startGame e ws gc g) = g"
    then show ?thesis using assms by simp
  next
    let ?d = "createDeck (randomIndex e)"
    let ?dl = "dealCards (players g) (snd (pop ?d))"
    assume eq: "fst (startGame e ws gc g) =
      g\<lparr>state := Playing, deck := snd ?dl, discardPile := [fst (pop ?d)],
        currentPlayerId := Some (pid (players g ! 0)), players := fst ?dl\<rparr>"
    have n: "length (players g) \<le> 8" using assms(1) by (simp add: accounted_def)
    have d: "?d \<noteq> []" using length_createDeck[of "randomIndex e"] by auto
    have l51: "length (snd (pop ?d)) = 51" by (simp add: length_snd_pop length_createDeck)
    have "4 * length (players g) \<le> length (snd (pop ?d))" using n l51 by simp
    from dealCards_enough[OF this] l51 fst_pop_Some[OF d] assms n show ?thesis
      unfolding eq by (auto simp: accounted_def pileSum_def held_def handLengths_def)
  qed
qed

lemma promote_cards: "map cards (ps[0 := (ps ! 0)\<lparr>isHost := True\<rparr>]) = map cards ps"
  by (cases ps) simp_all

lemma accounted_remove:
  assumes "accounted g" "state g = Lobby" "ps = filter P (players g)"
  shows "accounted (g\<lparr>players := ps\<rparr>) \<and>
         accounted (g\<lparr>players := ps[0 := (ps ! 0)\<lparr>isHost := True\<rparr>], host := pid (ps ! 0)\<rparr>)"
proof -
  have 1: "list_all (\<lambda>h. list_all isCard h) (map cards ps)"
    using assms(1,3) by (auto simp: accounted_def list_all_iff)
  have n: "length (players g) \<le> 8" using assms(1) by (simp add: accounted_def)
  have 2: "length ps \<le> 8"
    unfolding assms(3) using n by (rule le_trans[OF length_filter_le])
  show ?thesis using assms(1,2) 1 2 by (simp add: accounted_def promote_cards)
qed

lemma accounted_step:
  assumes "allGames accounted st" "legalMove st ev"
  shows "allGames accounted (fst (step e ev st))"
proof (cases ev)
  case (Close ws)
  have "allGames accounted (fst (removePlayer ws st))"
    using assms(2) unfolding Close
    by (intro allGames_remove[OF assms(1)] accounted_remove) (simp_all add: notStarted_def)
  then show ?thesis using Close by simp
next
  case (Message ws r)
  show ?thesis
  proof (cases r)
    case (CREATE_GAME n p)
    then show ?thesis using Message assms by (simp add: allGames_create accounted_new)
  next
    case (JOIN_GAME n p gc)
    then show ?thesis using Message assms by (simp add: allGames_join accounted_join)
  next
    case (START_GAME gc)
    have "allGames accounted (fst (onGame gc [Send ws (ERROR ''Need at least 2 players'')] (startGame e ws gc) st))"
      using assms(2) unfolding Message START_GAME
      by (intro allGames_onGame[OF assms(1)] accounted_start) simp_all
    then show ?thesis using Message START_GAME by simp
  next
    case (DRAW_CARD gc p)
    then show ?thesis using Message assms by (simp add: allGames_onGame accounted_draw)
  next
    case (TAKE_DISCARD gc p)
    then show ?thesis using Message assms by (simp add: allGames_onGame accounted_take)
  next
    case (REPLACE_CARD gc p i)
    have "allGames accounted (fst (onGame gc [Send ws (ERROR ''Invalid action'')] (replaceCard ws gc p i) st))"
      using assms(2) unfolding Message REPLACE_CARD
      by (intro allGames_onGame[OF assms(1)] accounted_replace) simp_all
    then show ?thesis using Message REPLACE_CARD by simp
  next
    case (DISCARD_DRAWN gc p)
    then show ?thesis using Message assms by (simp add: allGames_onGame accounted_discard)
  next
    case (CALL_CABO gc p)
    then show ?thesis using Message assms by (simp add: allGames_onGame accounted_cabo)
  next
    case (PEEK_OWN_CARD gc p i)
    then show ?thesis using Message assms by (simp add: allGames_readGame)
  next
    case (PEEK_OPPONENT_CARD gc p opp i)
    then show ?thesis using Message assms by (simp add: allGames_readGame)
  next
    case (SWITCH_CARDS gc p opp i j)
    have "allGames accounted (fst (onGame gc [] (switchCards ws gc p opp i j) st))"
      using assms(2) unfolding Message SWITCH_CARDS
      by (intro allGames_onGame[OF assms(1)] accounted_switch) simp_all
    then show ?thesis using Message SWITCH_CARDS by simp
  next
    case LEAVE_GAME
    have "allGames accounted (fst (removePlayer ws st))"
      using assms(2) unfolding Message LEAVE_GAME
      by (intro allGames_remove[OF assms(1)] accounted_remove) (simp_all add: notStarted_def)
    then show ?thesis using Message LEAVE_GAME by (simp add: Let_def)
  qed
qed

section \<open>One room of the registry\<close>

lemma onGame_at:
  "games (fst (onGame c m f st)) gc =
     (if gc = c then map_option (\<lambda>g. fst (f g)) (games st gc) else games st gc)"
  by (cases "games st c") (auto simp: onGame_def)

lemma readGame_same: "fst (readGame c f st) = st"
  by (cases "games st c") (simp_all add: readGame_def)

lemma createGame_at:
  "games (fst (createGame e ws n p st)) gc =
     (if gc = randomCode e then Some (newGame (randomCode e) n p) else games st gc)"
  by (simp add: createGame_def Let_def)

lemma joinGame_at:
  "games (fst (joinGame ws n p c st)) gc = games st gc \<or>
   (\<exists>g. gc = c \<and> games st gc = Some g \<and> length (players g) < 8 \<and>
        games (fst (joinGame ws n p c st)) gc = Some (g\<lparr>players := players g @ [newPlayer p n False]\<rparr>))"
  by (cases "games st c") (auto simp: joinGame_def Let_def)

lemma removePlayer_at:
  "games (fst (removePlayer ws st)) gc = games st gc \<or>
   games (fst (removePlayer ws st)) gc = None \<or>
   (\<exists>g ps. games st gc = Some g \<and>
      (games (fst (removePlayer ws st)) gc = Some (g\<lparr>players := ps\<rparr>) \<or>
       games (fst (removePlayer ws st)) gc =
         Some (g\<lparr>players := ps[0 := (ps ! 0)\<lparr>isHost := True\<rparr>], host := pid (ps ! 0)\<rparr>)))"
proof (cases "clients st ws")
  case None
  then show ?thesis by (simp add: removePlayer_def)
next
  case (Some ci)
  show ?thesis
  proof (cases "games st (gameCode ci)")
    case None
    then show ?thesis using Some by (simp add: removePlayer_def)
  next
    case g: (Some g)
    show ?thesis
      using Some g by (cases "gc = gameCode ci") (auto simp: removePlayer_def Let_def)
  qed
qed

section \<open>Finished stays Finished\<close>

lemma endTurn_finished: "state g = Finished \<Longrightarrow> state (fst (endTurn ws gc mk g)) = Finished"
  using endTurn_state[of ws gc mk g] by auto

lemma finished_draw: "state g = Finished \<Longrightarrow> state (fst (drawCard ws gc p g)) = Finished"
  using drawCard_cases[of ws gc p g] by auto

lemma finished_take: "state g = Finished \<Longrightarrow> state (fst (takeDiscard ws gc p g)) = Finished"
  using takeDiscard_cases[of ws gc p g] by auto

lemma finished_cabo: "state g = Finished \<Longrightarrow> state (fst (callCabo ws gc p g)) = Finished"
  using callCabo_cases[of ws gc p g] by auto

lemma finished_switch: "state g = Finished \<Longrightarrow> state (fst (switchCards ws gc p opp i j g)) = Finished"
  using switchCards_cases[of ws gc p opp i j g] by (auto simp: swapSlots_def Let_def)

lemma finished_replace: "state g = Finished \<Longrightarrow> state (fst (replaceCard ws gc p i g)) = Finished"
  using replaceCard_cases[of ws gc p i g]
  by (auto simp: endTurn_finished putCard_def Let_def)

lemma finished_discard: "state g = Finished \<Longrightarrow> state (fst (discardDrawn ws gc p g)) = Finished"
  using discardDrawn_cases[of ws gc p g]
  by (auto simp: endTurn_finished discardHeld_def)

lemma finishedOrGone_onGame:
  assumes "finishedOrGone gc st" "\<And>g. state g = Finished \<Longrightarrow> state (fst (f g)) = Finished"
  shows "finishedOrGone gc (fst (onGame c m f st))"
  using assms by (cases "games st gc") (auto simp: finishedOrGone_def onGame_at)

lemma finishedOrGone_remove:
  assumes "finishedOrGone gc st"
  shows "finishedOrGone gc (fst (removePlayer ws st))"
  using assms removePlayer_at[of ws st gc]
  by (cases "games st gc") (auto simp: finishedOrGone_def)

lemma finishedOrGone_step:
  assumes "finishedOrGone gc st" "\<not> restarts gc e ev"
  shows "finishedOrGone gc (fst (step e ev st))"
proof (cases ev)
  case (Close ws)
  then show ?thesis using assms(1) by (simp add: finishedOrGone_remove)
next
  case (Message ws r)
  show ?thesis
  proof (cases r)
    case (CREATE_GAME n p)
    then show ?thesis using Message assms by (simp add: finishedOrGone_def createGame_at)
  next
    case (JOIN_GAME n p c)
    then show ?thesis using Message assms(1) joinGame_at[of ws n p c st gc]
      by (cases "games st gc") (auto simp: finishedOrGone_def)
  next
    case (START_GAME c)
    then show ?thesis using Message assms by (simp add: finishedOrGone_def onGame_at)
  next
    case (DRAW_CARD c p)
    then show ?thesis using Message assms by (simp add: finishedOrGone_onGame finished_draw)
  next
    case (TAKE_DISCARD c p)
    then show ?thesis using Message assms by (simp add: finishedOrGone_onGame finished_take)
  next
    case (REPLACE_CARD c p i)
    then show ?thesis using Message assms by (simp add: finishedOrGone_onGame finished_replace)
  next
    case (DISCARD_DRAWN c p)
    then show ?thesis using Message assms by (simp add: finishedOrGone_onGame finished_discard)
  next
    case (CALL_CABO c p)
    then show ?thesis using Message assms by (simp add: finishedOrGone_onGame finished_cabo)
  next
    case (PEEK_OWN_CARD c p i)
    then show ?thesis using Message assms by (simp add: readGame_same)
  next
    case (PEEK_OPPONENT_CARD c p opp i)
    then show ?thesis using Message assms by (simp add: readGame_same)
  next
    case (SWITCH_CARDS c p opp i j)
    then show ?thesis using Message assms by (simp add: finishedOrGone_onGame finished_switch)
  next
    case LEAVE_GAME
    then show ?thesis using Message assms(1) by (simp add: Let_def finishedOrGone_remove)
  qed
qed

lemma finishedOrGone_run:
  "finishedOrGone gc st \<Longrightarrow> list_all (\<lambda>x. \<not> restarts gc (fst x) (snd x)) evs \<Longrightarrow>
   finishedOrGone gc (run evs st)"
  by (induction evs arbitrary: st) (simp_all add: finishedOrGone_step)

section \<open>Scoring every hand\<close>

lemma scoreLoop_defined: "list_all (\<lambda>s. s \<noteq> Undefined) cs \<Longrightarrow> scoreLoop cs tot \<noteq> None"
proof (induction cs arbitrary: tot)
  case Nil
  then show ?case by simp
next
  case (Cons s cs)
  then show ?case by (cases s) simp_all
qed

lemma scoreAll_defined:
  "list_all (\<lambda>q. list_all (\<lambda>s. s \<noteq> Undefined) (cards q)) ps \<Longrightarrow>
   snd (scoreAll ps) \<and> list_all (\<lambda>q. calculateScore (cards q) = Some (score q)) (fst (scoreAll ps))"
proof (induction ps)
  case Nil
  then show ?case by simp
next
  case (Cons q ps)
  then obtain v where v: "calculateScore (cards q) = Some v"
    using scoreLoop_defined[of "cards q" 0] by (auto simp: calculateScore_def)
  then show ?case using Cons by (simp add: Let_def)
qed

lemma noUndefined_cards:
  "map cards (players g') = map cards (players g) \<Longrightarrow> noUndefined g' = noUndefined g"
proof -
  assume "map cards (players g') = map cards (players g)"
  then have "list_all (list_all (\<lambda>s. s \<noteq> Undefined)) (map cards (players g'))
           = list_all (list_all (\<lambda>s. s \<noteq> Undefined)) (map cards (players g))" by simp
  then show ?thesis by (simp add: noUndefined_def list_all_iff)
qed

section \<open>The end of a turn once Cabo is called\<close>

lemma caboCheck_counting_last:
  assumes "truthy (caboCallerId g)" "noUndefined g" "length (players g) \<le> turnsAfterCabo g + 1"
  shows "\<exists>g'. caboCheck g = Done g' \<and> state g' = Finished \<and> scored g'
     \<and> map pid (players g') = map pid (players g) \<and> map cards (players g') = map cards (players g)
     \<and> turnsAfterCabo g' = turnsAfterCabo g + 1 \<and> caboCallerId g' = caboCallerId g"
  using assms scoreAll_defined[of "players g"]
  by (simp add: caboCheck_def Let_def noUndefined_def scored_def scoreAll_pid scoreAll_cards)

lemma caboCheck_counting_before:
  assumes "truthy (caboCallerId g)" "turnsAfterCabo g + 1 < length (players g)"
  shows "caboCheck g = Done (g\<lparr>turnsAfterCabo := turnsAfterCabo g + 1\<rparr>)"
  using assms by (simp add: caboCheck_def Let_def)

lemma advanceTurn_playing:
  assumes "state g = Playing" "currentTurn g = Some t" "players g \<noteq> []"
  shows "advanceTurn g = Done (g\<lparr>currentTurn := Some ((t + 1) mod length (players g)),
            currentPlayerId := Some (pid (players g ! ((t + 1) mod length (players g))))\<rparr>)"
  using assms by (simp add: advanceTurn_def nextTurn_def Let_def)

lemma advanceTurn_finished: "state g = Finished \<Longrightarrow> advanceTurn g = Done g"
  by (simp add: advanceTurn_def)

lemma endTurn_counting:
  assumes "map pid (players g) = ids" "ids \<noteq> []" "truthy (caboCallerId g)" "noUndefined g"
    and "turnsAfterCabo g = k"
    and "k < length ids \<longrightarrow> state g = Playing \<and> currentTurn g = Some ((t + k) mod length ids)"
    and "length ids \<le> k \<longrightarrow> state g = Finished"
  shows "counting ids t (Suc k) (fst (endTurn ws gc mk g))"
proof -
  have n: "length (players g) = length ids" using assms(1) by (metis length_map)
  have ne: "players g \<noteq> []" using assms(1,2) by auto
  show ?thesis
  proof (cases "Suc k < length ids")
    case True
    let ?g1 = "g\<lparr>turnsAfterCabo := turnsAfterCabo g + 1\<rparr>"
    have c: "caboCheck g = Done ?g1"
      using assms(3,5) True n by (intro caboCheck_counting_before) simp_all
    have k: "k < length ids" using True by simp
    let ?t' = "((t + k) mod length ids + 1) mod length (players ?g1)"
    have a: "advanceTurn ?g1 = Done (?g1\<lparr>currentTurn := Some ?t',
            currentPlayerId := Some (pid (players ?g1 ! ?t'))\<rparr>)"
      using assms(6) k ne by (intro advanceTurn_playing) simp_all
    have t': "?t' = (t + Suc k) mod length ids"
      using n by (simp add: mod_Suc_eq)
    have lt: "(t + Suc k) mod length ids < length (players g)" using n assms(2) by simp
    have "pid (players g ! ((t + Suc k) mod length ids)) = ids ! ((t + Suc k) mod length ids)"
      using assms(1) lt by (metis nth_map)
    moreover have "state g = Playing" using assms(6) k by simp
    ultimately show ?thesis
      using c a t' True assms(1-5) n
      by (simp add: endTurn_def counting_def noUndefined_def)
  next
    case False
    have "length (players g) \<le> turnsAfterCabo g + 1" using False n assms(5) by simp
    from caboCheck_counting_last[OF assms(3,4) this]
    obtain g' where g': "caboCheck g = Done g'" "state g' = Finished" "scored g'"
      "map pid (players g') = map pid (players g)" "map cards (players g') = map cards (players g)"
      "turnsAfterCabo g' = turnsAfterCabo g + 1" "caboCallerId g' = caboCallerId g"
      by blast
    have "noUndefined g'" using g'(5) assms(4) noUndefined_cards by blast
    then show ?thesis
      using g' False assms(1-5)
      by (simp add: endTurn_def advanceTurn_finished counting_def)
  qed
qed


section \<open>The countdown, request by request\<close>

lemma counting_draw: "counting ids t k g \<Longrightarrow> counting ids t k (fst (drawCard ws gc p g))"
  using drawCard_cases[of ws gc p g] by (auto simp: counting_def noUndefined_def scored_def)

lemma counting_take: "counting ids t k g \<Longrightarrow> counting ids t k (fst (takeDiscard ws gc p g))"
  using takeDiscard_cases[of ws gc p g] by (auto simp: counting_def noUndefined_def scored_def)

lemma update_same_pid:
  "k < length ps \<Longrightarrow> map pid (ps[k := (ps ! k)\<lparr>cards := c\<rparr>]) = map pid ps"
  by (rule nth_equalityI) (simp_all add: nth_list_update)

lemma setSlot_defined:
  "list_all (\<lambda>s. s \<noteq> Undefined) xs \<Longrightarrow> v \<noteq> None \<Longrightarrow> list_all (\<lambda>s. s \<noteq> Undefined) (setSlot xs i v)"
proof (cases "i < length xs")
  case True
  assume "list_all (\<lambda>s. s \<noteq> Undefined) xs" "v \<noteq> None"
  then show ?thesis using True by (cases v) (simp_all add: setSlot_def toSlot_def list_all_update)
next
  case False
  assume "list_all (\<lambda>s. s \<noteq> Undefined) xs" "v \<noteq> None"
  then show ?thesis using False by (cases v) (auto simp: setSlot_def toSlot_def list_all_iff)
qed

lemma putCard_noUndefined:
  assumes "noUndefined g" "k < length (players g)" "drawnCard g \<noteq> None"
  shows "noUndefined (putCard k i g)"
proof -
  have "list_all (\<lambda>s. s \<noteq> Undefined) (cards (players g ! k))"
    using assms(1,2) by (simp add: noUndefined_def list_all_length)
  then have "list_all (\<lambda>s. s \<noteq> Undefined) (setSlot (cards (players g ! k)) i (drawnCard g))"
    using assms(3) by (rule setSlot_defined)
  then show ?thesis
    using assms(1) by (simp add: noUndefined_def putCard_def Let_def list_all_update)
qed

lemma replaceCard_rejected:
  "\<not> (holdsTurn g p \<and> findPlayer (players g) p \<noteq> None) \<Longrightarrow> fst (replaceCard ws gc p i g) = g"
  by (cases "findPlayer (players g) p") (auto simp: replaceCard_def holdsTurn_def)

lemma replaceCard_accepted:
  "holdsTurn g p \<Longrightarrow> findPlayer (players g) p = Some k \<Longrightarrow>
   fst (replaceCard ws gc p i g) = fst (endTurn ws gc CARD_REPLACED (putCard k i g))"
  by (auto simp: replaceCard_def holdsTurn_def)

lemma discardDrawn_rejected: "\<not> holdsTurn g p \<Longrightarrow> fst (discardDrawn ws gc p g) = g"
  by (auto simp: discardDrawn_def holdsTurn_def)

lemma discardDrawn_accepted:
  "holdsTurn g p \<Longrightarrow> fst (discardDrawn ws gc p g) = fst (endTurn ws gc CARD_DISCARDED (discardHeld g))"
  by (auto simp: discardDrawn_def holdsTurn_def)

lemma counting_replace:
  assumes "counting ids t k g" "holdsTurn g p" "findPlayer (players g) p = Some j"
  shows "counting ids t (Suc k) (fst (replaceCard ws gc p i g))"
proof -
  have jl: "j < length (players g)" using assms(3) findPlayer_Some by blast
  have d: "drawnCard g \<noteq> None" using assms(2) by (simp add: holdsTurn_def)
  have nu: "noUndefined (putCard j i g)"
    using assms(1) jl d by (intro putCard_noUndefined) (simp_all add: counting_def)
  have ids: "map pid (players (putCard j i g)) = ids"
    using assms(1) jl by (simp add: putCard_def Let_def update_same_pid counting_def)
  have rest: "caboCallerId (putCard j i g) = caboCallerId g" "turnsAfterCabo (putCard j i g) = turnsAfterCabo g"
    "state (putCard j i g) = state g" "currentTurn (putCard j i g) = currentTurn g"
    by (simp_all add: putCard_def Let_def)
  have "counting ids t (Suc k) (fst (endTurn ws gc CARD_REPLACED (putCard j i g)))"
    using assms(1) nu ids rest by (intro endTurn_counting) (simp_all add: counting_def)
  then show ?thesis using replaceCard_accepted[OF assms(2,3)] by simp
qed

lemma counting_discard:
  assumes "counting ids t k g" "holdsTurn g p"
  shows "counting ids t (Suc k) (fst (discardDrawn ws gc p g))"
proof -
  have "counting ids t (Suc k) (fst (endTurn ws gc CARD_DISCARDED (discardHeld g)))"
    using assms(1)
    by (intro endTurn_counting) (simp_all add: counting_def discardHeld_def noUndefined_def)
  then show ?thesis using discardDrawn_accepted[OF assms(2)] by simp
qed

lemma removePlayer_elsewhere:
  "boundElsewhere gc st ws \<Longrightarrow> games (fst (removePlayer ws st)) gc = games st gc"
proof (cases "clients st ws")
  case None
  then show ?thesis by (simp add: removePlayer_def)
next
  case (Some ci)
  assume "boundElsewhere gc st ws"
  then have ne: "gameCode ci \<noteq> gc" using Some by (simp add: boundElsewhere_def)
  show ?thesis
    using Some ne by (cases "games st (gameCode ci)") (auto simp: removePlayer_def Let_def)
qed

lemma joinGame_elsewhere: "c \<noteq> gc \<Longrightarrow> games (fst (joinGame ws n p c st)) gc = games st gc"
  using joinGame_at[of ws n p c st gc] by auto

lemma callCabo_called: "truthy (caboCallerId g) \<Longrightarrow> fst (callCabo ws gc p g) = g"
  using callCabo_cases[of ws gc p g] by auto

lemma swapSlots_noUndefined:
  assumes "noUndefined g" "a < length (players g)" "b < length (players g)"
    and "getSlot (cards (players g ! a)) i \<noteq> None" "getSlot (cards (players g ! b)) j \<noteq> None"
  shows "noUndefined (swapSlots a b i j g)"
proof -
  let ?P = "\<lambda>q. list_all (\<lambda>s. s \<noteq> Undefined) (cards q)"
  let ?ps1 = "(players g)[a := (players g ! a)\<lparr>cards := setSlot (cards (players g ! a)) i (getSlot (cards (players g ! b)) j)\<rparr>]"
  have all: "list_all ?P (players g)" using assms(1) by (simp add: noUndefined_def)
  have "?P (players g ! a)" using all assms(2) by (simp add: list_all_length)
  then have "?P ((players g ! a)\<lparr>cards := setSlot (cards (players g ! a)) i (getSlot (cards (players g ! b)) j)\<rparr>)"
    using assms(5) by (simp add: setSlot_defined)
  then have all1: "list_all ?P ?ps1" using all by (rule list_all_update[rotated])
  have "?P (?ps1 ! b)" using all1 assms(3) by (simp add: list_all_length)
  then have "?P ((?ps1 ! b)\<lparr>cards := setSlot (cards (?ps1 ! b)) j (getSlot (cards (players g ! a)) i)\<rparr>)"
    using assms(4) by (simp add: setSlot_defined)
  then have "list_all ?P (?ps1[b := (?ps1 ! b)\<lparr>cards := setSlot (cards (?ps1 ! b)) j (getSlot (cards (players g ! a)) i)\<rparr>])"
    using all1 by (rule list_all_update[rotated])
  then show ?thesis by (simp add: noUndefined_def swapSlots_def Let_def)
qed

lemma swapSlots_pid:
  "a < length (players g) \<Longrightarrow> b < length (players g) \<Longrightarrow>
   map pid (players (swapSlots a b i j g)) = map pid (players g)"
  by (simp add: swapSlots_def Let_def update_same_pid)

lemma counting_switch:
  assumes "counting ids t k g" "state g = Playing" "readsCards g p opp i j"
  shows "counting ids t k (fst (switchCards ws gc p opp i j g))"
proof -
  from switchCards_cases[of ws gc p opp i j g] show ?thesis
  proof (elim disjE exE conjE)
    assume "fst (switchCards ws gc p opp i j g) = g"
    then show ?thesis using assms(1) by simp
  next
    fix a b
    assume a: "findPlayer (players g) p = Some a" and b: "findPlayer (players g) opp = Some b"
      and eq: "fst (switchCards ws gc p opp i j g) = swapSlots a b i j g"
    have al: "a < length (players g)" and bl: "b < length (players g)"
      using a b findPlayer_Some by blast+
    have r: "getSlot (cards (players g ! a)) i \<noteq> None" "getSlot (cards (players g ! b)) j \<noteq> None"
      using assms(3) a b by (simp_all add: readsCards_def)
    have nu: "noUndefined (swapSlots a b i j g)"
      using assms(1) al bl r by (intro swapSlots_noUndefined) (simp_all add: counting_def)
    have ids: "map pid (players (swapSlots a b i j g)) = ids"
      using assms(1) al bl by (simp add: swapSlots_pid counting_def)
    have rest: "caboCallerId (swapSlots a b i j g) = caboCallerId g"
      "turnsAfterCabo (swapSlots a b i j g) = turnsAfterCabo g"
      "state (swapSlots a b i j g) = state g" "currentTurn (swapSlots a b i j g) = currentTurn g"
      "currentPlayerId (swapSlots a b i j g) = currentPlayerId g"
      by (simp_all add: swapSlots_def Let_def)
    have "k < length ids" using assms(1,2) by (auto simp: counting_def)
    then show ?thesis
      unfolding eq using assms(1) nu ids rest by (simp add: counting_def)
  qed
qed

lemma counting_step:
  assumes "games st gc = Some g" "counting ids t k g" "keepsCountdown gc st e ev"
  shows "\<exists>g'. games (fst (step e ev st)) gc = Some g'
            \<and> counting ids t (k + (if resolvesNow gc st ev then 1 else 0)) g'"
proof (cases ev)
  case (Close ws)
  then show ?thesis using assms by (simp add: removePlayer_elsewhere)
next
  case (Message ws r)
  show ?thesis
  proof (cases r)
    case (CREATE_GAME n p)
    then show ?thesis using Message assms by (simp add: createGame_at)
  next
    case (JOIN_GAME n p c)
    then show ?thesis using Message assms by (simp add: joinGame_elsewhere)
  next
    case (START_GAME c)
    then show ?thesis using Message assms by (simp add: onGame_at)
  next
    case (DRAW_CARD c p)
    then show ?thesis using Message assms(1,2) by (auto simp: onGame_at counting_draw)
  next
    case (TAKE_DISCARD c p)
    then show ?thesis using Message assms(1,2) by (auto simp: onGame_at counting_take)
  next
    case (REPLACE_CARD c p i)
    show ?thesis
    proof (cases "c = gc \<and> holdsTurn g p \<and> findPlayer (players g) p \<noteq> None")
      case True
      then obtain j where j: "findPlayer (players g) p = Some j" by auto
      have "counting ids t (Suc k) (fst (replaceCard ws gc p i g))"
        using assms(2) True j by (intro counting_replace) simp_all
      then show ?thesis using Message REPLACE_CARD assms(1) True by (simp add: onGame_at)
    next
      case False
      then have "c = gc \<longrightarrow> fst (replaceCard ws gc p i g) = g"
        using replaceCard_rejected[of g p ws gc i] by blast
      then show ?thesis using Message REPLACE_CARD assms(1,2) False by (auto simp: onGame_at)
    qed
  next
    case (DISCARD_DRAWN c p)
    show ?thesis
    proof (cases "c = gc \<and> holdsTurn g p")
      case True
      have "counting ids t (Suc k) (fst (discardDrawn ws gc p g))"
        using assms(2) True by (intro counting_discard) simp_all
      then show ?thesis using Message DISCARD_DRAWN assms(1) True by (simp add: onGame_at)
    next
      case False
      then have "c = gc \<longrightarrow> fst (discardDrawn ws gc p g) = g"
        using discardDrawn_rejected[of g p ws gc] by blast
      then show ?thesis using Message DISCARD_DRAWN assms(1,2) False by (auto simp: onGame_at)
    qed
  next
    case (CALL_CABO c p)
    have "fst (callCabo ws c p g) = g"
      using assms(2) by (intro callCabo_called) (simp add: counting_def)
    then show ?thesis using Message CALL_CABO assms(1,2) by (auto simp: onGame_at)
  next
    case (PEEK_OWN_CARD c p i)
    then show ?thesis using Message assms(1,2) by (simp add: readGame_same)
  next
    case (PEEK_OPPONENT_CARD c p opp i)
    then show ?thesis using Message assms(1,2) by (simp add: readGame_same)
  next
    case (SWITCH_CARDS c p opp i j)
    show ?thesis
    proof (cases "c = gc")
      case True
      then have "state g = Playing" "readsCards g p opp i j"
        using assms(1,3) Message SWITCH_CARDS by simp_all
      then have "counting ids t k (fst (switchCards ws gc p opp i j g))"
        using assms(2) by (intro counting_switch)
      then show ?thesis using Message SWITCH_CARDS assms(1) True by (simp add: onGame_at)
    next
      case False
      then show ?thesis using Message SWITCH_CARDS assms(1,2) by (simp add: onGame_at)
    qed
  next
    case LEAVE_GAME
    then show ?thesis using Message assms by (simp add: Let_def removePlayer_elsewhere)
  qed
qed

lemma counting_run:
  "games st gc = Some g \<Longrightarrow> counting ids t k g \<Longrightarrow> countdownRun gc evs st \<Longrightarrow>
   \<exists>g'. games (run evs st) gc = Some g' \<and> counting ids t (k + resolves gc evs st) g'"
proof (induction evs arbitrary: st g k)
  case Nil
  then show ?case by simp
next
  case (Cons x xs)
  let ?st = "fst (step (fst x) (snd x) st)"
  let ?k = "k + (if resolvesNow gc st (snd x) then 1 else 0)"
  from Cons.prems obtain g1 where g1: "games ?st gc = Some g1" "counting ids t ?k g1"
    using counting_step[of st gc g ids t k "fst x" "snd x"] by auto
  from Cons.IH[OF g1] Cons.prems(3)
  obtain g' where "games (run xs ?st) gc = Some g'" "counting ids t (?k + resolves gc xs ?st) g'"
    by auto
  then show ?case by (auto simp: add.assoc)
qed

lemma findPlayer_nth: "k < length ps \<Longrightarrow> findPlayer ps (pid (ps ! k)) \<noteq> None"
  by (induction ps arbitrary: k) (auto simp: nth_Cons')

section \<open>The countdown where no hand holds undefined\<close>

text \<open>
  Take a session in play whose turn index \<open>t\<close> points at the player \<open>p\<close> cached in
  \<open>currentPlayerId\<close>, whose hands hold no explicit \<^verbatim>\<open>undefined\<close>, and in which Cabo has
  not been called; let \<open>p\<close> (an id that is not the empty string) call Cabo, and let any
  events follow that \<open>countdownRun\<close> admits. Every resolve step the server accepts
  increments \<open>turnsAfterCabo\<close>, which therefore equals the number \<open>k\<close> of accepted resolve
  steps; while \<open>k\<close> is below the player count \<open>n\<close> the session is Playing and the turn has
  advanced circularly to player \<open>(t + k) mod n\<close>; from the \<open>n\<close>-th accepted resolve step on
  the session is Finished and every score is \<open>calculateScore\<close> of the player's hand.
\<close>

theorem cabo_countdown:
  assumes "games st gc = Some g" and "state g = Playing"
    and "currentTurn g = Some t" and "t < length (players g)"
    and "currentPlayerId g = Some p" and "p = pid (players g ! t)" and "p \<noteq> []"
    and "\<not> truthy (caboCallerId g)"
    and "noUndefined g"
    and "countdownRun gc evs (fst (handle e ws (CALL_CABO gc p) st))"
  shows "\<exists>g'. games (run evs (fst (handle e ws (CALL_CABO gc p) st))) gc = Some g'
     \<and> turnsAfterCabo g' = resolves gc evs (fst (handle e ws (CALL_CABO gc p) st))
     \<and> (turnsAfterCabo g' < length (players g) \<longrightarrow>
           state g' = Playing
         \<and> currentTurn g' = Some ((t + turnsAfterCabo g') mod length (players g))
         \<and> currentPlayerId g' =
             Some (pid (players g ! ((t + turnsAfterCabo g') mod length (players g)))))
     \<and> (length (players g) \<le> turnsAfterCabo g' \<longrightarrow>
           state g' = Finished
         \<and> list_all (\<lambda>q. calculateScore (cards q) = Some (score q)) (players g'))"
proof -
  let ?g1 = "g\<lparr>caboCallerId := Some p, turnsAfterCabo := 0\<rparr>"
  let ?st1 = "fst (handle e ws (CALL_CABO gc p) st)"
  let ?ids = "map pid (players g)"
  have f: "findPlayer (players g) p \<noteq> None" using assms(4,6) findPlayer_nth by blast
  then have "fst (callCabo ws gc p g) = ?g1"
    using assms(5,8) by (auto simp: callCabo_def Let_def)
  then have g1: "games ?st1 gc = Some ?g1" using assms(1) by (simp add: onGame_at)
  have ne: "players g \<noteq> []" using assms(4) by auto
  have "pid (players g ! t) = ?ids ! t" using assms(4) by simp
  then have c: "counting ?ids t 0 ?g1"
    using assms(2-9) ne by (simp add: counting_def truthy_def noUndefined_def)
  from counting_run[OF g1 c assms(10)]
  obtain g' where g': "games (run evs ?st1) gc = Some g'"
    "counting ?ids t (0 + resolves gc evs ?st1) g'" by blast
  have "\<And>i. i < length (players g) \<Longrightarrow> ?ids ! i = pid (players g ! i)" by simp
  then show ?thesis using g' ne by (auto simp: counting_def scored_def)
qed

text \<open>
  Two instances: alice calls Cabo in the session just dealt. After her own turn (one
  resolve step) the session is Playing and it is bob's turn. After the run \<open>demoBusy\<close>
  (a switch of alice's K for bob's 6, a room created elsewhere, a second Cabo call, and
  the turns of both players: two resolve steps) the session is Finished with the scores
  6 + 12 + 11 + 10 = 39 and 9 + 8 + 7 + 13 = 37.
\<close>

theorem cabo_countdown_instance:
  "map_option (\<lambda>g. (state g, turnsAfterCabo g, currentTurn g, currentPlayerId g))
     (games (run demoTurn (fst (handle demoEnv 1 (CALL_CABO ''ABC123'' ''p1'') demoPlaying))) ''ABC123'')
   = Some (Playing, 1, Some 1, Some ''p2'')
   \<and> map_option (\<lambda>g. (state g, turnsAfterCabo g, map score (players g)))
     (games (run demoBusy (fst (handle demoEnv 1 (CALL_CABO ''ABC123'' ''p1'') demoPlaying))) ''ABC123'')
   = Some (Finished, 2, [39, 37])"
proof -
  let ?g = "gameAt ''ABC123'' demoPlaying"
  let ?st1 = "fst (handle demoEnv 1 (CALL_CABO ''ABC123'' ''p1'') demoPlaying)"
  have 1: "games demoPlaying ''ABC123'' = Some ?g" by code_simp
  have 2: "state ?g = Playing" by code_simp
  have 3: "currentTurn ?g = Some 0" by code_simp
  have 4: "0 < length (players ?g)" by code_simp
  have 5: "currentPlayerId ?g = Some ''p1''" by code_simp
  have 6: "''p1'' = pid (players ?g ! 0)" by code_simp
  have 7: "''p1'' \<noteq> []" by simp
  have 8: "\<not> truthy (caboCallerId ?g)" by code_simp
  have 9: "noUndefined ?g" by code_simp
  have 10: "countdownRun ''ABC123'' demoBusy ?st1" by code_simp
  have 11: "countdownRun ''ABC123'' demoTurn ?st1" by code_simp
  have n: "length (players ?g) = 2" by code_simp
  have b: "pid (players ?g ! 1) = ''p2''" by code_simp
  from cabo_countdown[OF 1 2 3 4 5 6 7 8 9 11]
  obtain g1 where g1: "games (run demoTurn ?st1) ''ABC123'' = Some g1"
    "turnsAfterCabo g1 = resolves ''ABC123'' demoTurn ?st1"
    "turnsAfterCabo g1 < length (players ?g) \<longrightarrow>
           state g1 = Playing
         \<and> currentTurn g1 = Some ((0 + turnsAfterCabo g1) mod length (players ?g))
         \<and> currentPlayerId g1 =
             Some (pid (players ?g ! ((0 + turnsAfterCabo g1) mod length (players ?g))))"
    by blast
  have r1: "resolves ''ABC123'' demoTurn ?st1 = 1" by code_simp
  have first: "map_option (\<lambda>g. (state g, turnsAfterCabo g, currentTurn g, currentPlayerId g))
     (games (run demoTurn ?st1) ''ABC123'') = Some (Playing, 1, Some 1, Some ''p2'')"
    using g1 r1 n b by simp
  from cabo_countdown[OF 1 2 3 4 5 6 7 8 9 10]
  obtain g' where g': "games (run demoBusy ?st1) ''ABC123'' = Some g'"
    "turnsAfterCabo g' = resolves ''ABC123'' demoBusy ?st1"
    "length (players ?g) \<le> turnsAfterCabo g' \<longrightarrow> state g' = Finished"
    by blast
  have r: "resolves ''ABC123'' demoBusy ?st1 = 2" by code_simp
  have s: "map_option (\<lambda>g. map score (players g)) (games (run demoBusy ?st1) ''ABC123'') = Some [39, 37]"
    by code_simp
  show ?thesis using first g' r n s by simp
qed

section \<open>The properties\<close>

subsection \<open>C1: the Cabo countdown\<close>

text \<open>
  C1. The claim: once Cabo is called in a session in play, every resolve step increments
  the counter, and the \<open>n\<close>-th (\<open>n\<close> the player count) takes the session to Finished with
  every score the \<open>calculateScore\<close> of the player's hand. The server does so where no
  hand holds \<^verbatim>\<open>undefined\<close> (\<open>cabo_countdown\<close> above) and fails to where one does. In the run
  \<open>demoStalled\<close> a \<^verbatim>\<open>SWITCH_CARDS\<close> naming slot 7 of bob's four slots stores \<^verbatim>\<open>undefined\<close> in
  alice's slot 0; alice calls Cabo; both players draw and discard. The second of these
  two accepted resolve steps enters the branch the code comments \<^verbatim>\<open>Round is over\<close>, where
  \<^verbatim>\<open>calculateScore\<close> throws on alice's hand; the \<^verbatim>\<open>catch\<close> block logs the error, nothing
  is sent, and the session of two players is left Playing with the counter at 2 and no
  score set.
\<close>

theorem cabo_stalls_on_undefined_slot:
  "map_option (\<lambda>g. (state g, turnsAfterCabo g, length (players g), map score (players g),
                     map (\<lambda>q. getSlot (cards q) 0) (players g)))
     (games (run demoStalled emptyServer) ''ABC123'')
   = Some (Playing, 2, 2, [0, 0], [None, Some \<lparr>suit = Clubs, cvalue = Pip 9\<rparr>])
   \<and> resolves ''ABC123'' demoStalled emptyServer = 2
   \<and> snd (last demoStalled) = Message 2 (DISCARD_DRAWN ''ABC123'' ''p2'')
   \<and> snd (step demoEnv (snd (last demoStalled)) (run (butlast demoStalled) emptyServer))
       = [ConsoleError]"
  by code_simp

subsection \<open>C2: the cards of a session\<close>

text \<open>
  C2 (as amended). For every run of legal moves from the empty registry (\<open>legalMove\<close>:
  a session is started from the lobby, slot indices lie within the hands, nobody leaves
  a started session) and every session that has been started, the deck, the discard
  pile and the hands hold 52 cards together with the held card: their sizes add up to
  52 when no card is held and to 51 while one is.
\<close>

theorem piles_and_held_card:
  assumes "legalRun legalMove evs emptyServer"
    and "games (run evs emptyServer) gc = Some g"
    and "state g \<noteq> Lobby"
  shows "pileSum g + held g = 52"
proof -
  have "allGames accounted (run evs emptyServer)"
    using assms(1) by (intro run_invariant[where P = "allGames accounted" and L = legalMove])
      (simp_all add: accounted_step allGames_empty)
  then have "accounted g" using assms(2) by (simp add: allGames_def)
  then show ?thesis using assms(3) by (simp add: accounted_def)
qed

text \<open>The instance: the session just dealt, after alice has drawn.\<close>

theorem piles_and_held_card_witness:
  "pileSum (gameAt ''ABC123'' demoHeld) + held (gameAt ''ABC123'' demoHeld) = 52
   \<and> held (gameAt ''ABC123'' demoHeld) = 1"
proof -
  let ?evs = "demoStart @ [(demoEnv, Message 1 (DRAW_CARD ''ABC123'' ''p1''))]"
  have 1: "legalRun legalMove ?evs emptyServer" by code_simp
  have 2: "games (run ?evs emptyServer) ''ABC123'' = Some (gameAt ''ABC123'' demoHeld)" by code_simp
  have 3: "state (gameAt ''ABC123'' demoHeld) \<noteq> Lobby" by code_simp
  have 4: "held (gameAt ''ABC123'' demoHeld) = 1" by code_simp
  from piles_and_held_card[OF 1 2 3] 4 show ?thesis by simp
qed

text \<open>
  The claim as stated fails between an acquire and its resolve: in the same session the
  deck holds 42 cards, the discard pile 1 and the two hands 4 each, 51 in all.
\<close>

theorem held_card_leaves_51:
  "legalRun legalMove (demoStart @ [(demoEnv, Message 1 (DRAW_CARD ''ABC123'' ''p1''))]) emptyServer
   \<and> map_option (\<lambda>g. (state g, length (deck g), length (discardPile g), handLengths g, pileSum g))
       (games demoHeld ''ABC123'') = Some (Playing, 42, 1, [4, 4], 51)"
  by code_simp

subsection \<open>C3: the Finished state\<close>

text \<open>
  C3 (as amended). Once the session of a room is Finished, it stays Finished (or is
  removed with its last player) under every sequence of requests and disconnections
  that holds neither a \<^verbatim>\<open>START_GAME\<close> for the room nor a \<^verbatim>\<open>CREATE_GAME\<close> whose random
  code is the room's. \<^verbatim>\<open>START_GAME\<close> on a Finished session of two or more players sets
  it to Playing.
\<close>

theorem finished_until_restart:
  assumes "games st gc = Some g" and "state g = Finished"
    and "list_all (\<lambda>x. \<not> restarts gc (fst x) (snd x)) evs"
  shows "(case games (run evs st) gc of None \<Rightarrow> True | Some g' \<Rightarrow> state g' = Finished)
       \<and> (2 \<le> length (players g) \<longrightarrow>
            map_option state (games (fst (handle e ws (START_GAME gc) st)) gc) = Some Playing)"
proof -
  have "finishedOrGone gc st" using assms(1,2) by (simp add: finishedOrGone_def)
  then have "finishedOrGone gc (run evs st)" using assms(3) by (rule finishedOrGone_run)
  then have 1: "case games (run evs st) gc of None \<Rightarrow> True | Some g' \<Rightarrow> state g' = Finished"
    by (simp add: finishedOrGone_def)
  have 2: "2 \<le> length (players g) \<Longrightarrow>
      map_option state (games (fst (handle e ws (START_GAME gc) st)) gc) = Some Playing"
    using assms(1) by (simp add: onGame_at startGame_def Let_def)
  show ?thesis using 1 2 by simp
qed

text \<open>
  The instance: the session finished by \<open>demoCabo\<close> and \<open>demoRound\<close>, then a draw, a
  replace, a join, a Cabo call and the loss of alice's connection.
\<close>

theorem finished_until_restart_witness:
  "map_option state (games (run demoAfter demoFinished) ''ABC123'') = Some Finished
   \<and> map_option state
       (games (fst (handle demoEnv 1 (START_GAME ''ABC123'') demoFinished)) ''ABC123'') = Some Playing"
proof -
  have 1: "games demoFinished ''ABC123'' = Some (gameAt ''ABC123'' demoFinished)" by code_simp
  have 2: "state (gameAt ''ABC123'' demoFinished) = Finished" by code_simp
  have 3: "list_all (\<lambda>x. \<not> restarts ''ABC123'' (fst x) (snd x)) demoAfter" by code_simp
  have 4: "games (run demoAfter demoFinished) ''ABC123'' \<noteq> None" by code_simp
  have 5: "2 \<le> length (players (gameAt ''ABC123'' demoFinished))" by code_simp
  from finished_until_restart[OF 1 2 3, of demoEnv 1] 4 5 show ?thesis by auto
qed

text \<open>
  The claim as stated fails for \<^verbatim>\<open>START_GAME\<close>, whose handler never reads the state:
  sent to the finished session it deals again and the session is Playing.
\<close>

theorem start_game_leaves_finished:
  "map_option state (games demoFinished ''ABC123'') = Some Finished
   \<and> map_option state
       (games (fst (handle demoEnv 1 (START_GAME ''ABC123'') demoFinished)) ''ABC123'') = Some Playing"
  by code_simp

subsection \<open>C4: the guards of acquire and resolve\<close>

text \<open>
  C4 (as amended). On any session, Playing in particular, \<^verbatim>\<open>DRAW_CARD\<close> and
  \<^verbatim>\<open>TAKE_DISCARD\<close> from a requester who is not \<open>currentPlayerId\<close> are answered
  \<^verbatim>\<open>Not your turn\<close>, and from the current player holding a card
  \<^verbatim>\<open>Already drew a card this turn\<close>; otherwise the top of the deck (of the discard
  pile) is popped into \<open>drawnCard\<close>. \<^verbatim>\<open>REPLACE_CARD\<close> and \<^verbatim>\<open>DISCARD_DRAWN\<close> are answered
  with the one reply \<^verbatim>\<open>Invalid action\<close> when no card is held or the requester is not
  \<open>currentPlayerId\<close>, the two causes not told apart. Every rejection leaves the whole
  server state as it was.
\<close>

theorem acquire_resolve_guards:
  assumes "games st gc = Some g"
  shows "(currentPlayerId g \<noteq> Some p \<longrightarrow>
            handle e ws (DRAW_CARD gc p) st = (st, [Send ws (ERROR ''Not your turn'')])
          \<and> handle e ws (TAKE_DISCARD gc p) st = (st, [Send ws (ERROR ''Not your turn'')]))
       \<and> (currentPlayerId g = Some p \<and> drawnCard g \<noteq> None \<longrightarrow>
            handle e ws (DRAW_CARD gc p) st = (st, [Send ws (ERROR ''Already drew a card this turn'')])
          \<and> handle e ws (TAKE_DISCARD gc p) st = (st, [Send ws (ERROR ''Already drew a card this turn'')]))
       \<and> (currentPlayerId g = Some p \<and> drawnCard g = None \<longrightarrow>
            fst (handle e ws (DRAW_CARD gc p) st) =
              st\<lparr>games := (games st)(gc \<mapsto> g\<lparr>deck := butlast (deck g),
                    drawnCard := (if deck g = [] then None else Some (last (deck g)))\<rparr>)\<rparr>
          \<and> fst (handle e ws (TAKE_DISCARD gc p) st) =
              st\<lparr>games := (games st)(gc \<mapsto> g\<lparr>discardPile := butlast (discardPile g),
                    drawnCard := (if discardPile g = [] then None else last (discardPile g))\<rparr>)\<rparr>)
       \<and> (currentPlayerId g \<noteq> Some p \<or> drawnCard g = None \<longrightarrow>
            handle e ws (REPLACE_CARD gc p i) st = (st, [Send ws (ERROR ''Invalid action'')])
          \<and> handle e ws (DISCARD_DRAWN gc p) st = (st, [Send ws (ERROR ''Invalid action'')]))"
  using assms
  by (auto simp: onGame_Some same_game drawCard_def takeDiscard_def replaceCard_def
      discardDrawn_def pop_def Let_def)

text \<open>
  The instance: in the session just dealt bob draws out of turn, alice draws the 5 of
  clubs and discards without holding a card; after her draw she tries to take the
  discard as well.
\<close>

theorem acquire_resolve_guards_witness:
  "snd (handle demoEnv 2 (DRAW_CARD ''ABC123'' ''p2'') demoPlaying) = [Send 2 (ERROR ''Not your turn'')]
   \<and> snd (handle demoEnv 1 (TAKE_DISCARD ''ABC123'' ''p1'') demoHeld)
       = [Send 1 (ERROR ''Already drew a card this turn'')]
   \<and> map_option drawnCard (games (fst (handle demoEnv 1 (DRAW_CARD ''ABC123'' ''p1'') demoPlaying)) ''ABC123'')
       = Some (Some \<lparr>suit = Clubs, cvalue = Pip 5\<rparr>)
   \<and> handle demoEnv 1 (DISCARD_DRAWN ''ABC123'' ''p1'') demoPlaying
       = (demoPlaying, [Send 1 (ERROR ''Invalid action'')])"
proof -
  have 1: "games demoPlaying ''ABC123'' = Some (gameAt ''ABC123'' demoPlaying)" by code_simp
  have 2: "games demoHeld ''ABC123'' = Some (gameAt ''ABC123'' demoHeld)" by code_simp
  have 3: "currentPlayerId (gameAt ''ABC123'' demoPlaying) = Some ''p1''" by code_simp
  have 4: "drawnCard (gameAt ''ABC123'' demoPlaying) = None" by code_simp
  have 5: "currentPlayerId (gameAt ''ABC123'' demoHeld) = Some ''p1''" by code_simp
  have 6: "drawnCard (gameAt ''ABC123'' demoHeld) \<noteq> None" by code_simp
  have 7: "deck (gameAt ''ABC123'' demoPlaying) \<noteq> []" by code_simp
  have 8: "last (deck (gameAt ''ABC123'' demoPlaying)) = \<lparr>suit = Clubs, cvalue = Pip 5\<rparr>" by code_simp
  show ?thesis
    using acquire_resolve_guards[OF 1, of "''p2''" demoEnv 2 0]
      acquire_resolve_guards[OF 1, of "''p1''" demoEnv 1 0]
      acquire_resolve_guards[OF 2, of "''p1''" demoEnv 1 0] 3 4 5 6 7 8
    by simp
qed

text \<open>
  The claim as stated gives a resolve request two kinds of rejection, NoHeldCard and
  NotYourTurn. The server has one: alice replacing on her turn without a held card, and
  bob replacing while alice holds her card, get the same reply, and it is not the reply
  bob's draw out of turn gets in the same state.
\<close>

theorem resolve_errors_not_distinguished:
  "snd (handle demoEnv 1 (REPLACE_CARD ''ABC123'' ''p1'' 0) demoPlaying) = [Send 1 (ERROR ''Invalid action'')]
   \<and> snd (handle demoEnv 2 (REPLACE_CARD ''ABC123'' ''p2'' 0) demoHeld) = [Send 2 (ERROR ''Invalid action'')]
   \<and> snd (handle demoEnv 2 (DRAW_CARD ''ABC123'' ''p2'') demoHeld) = [Send 2 (ERROR ''Not your turn'')]
   \<and> map_option (\<lambda>g. (currentPlayerId g, drawnCard g \<noteq> None)) (games demoPlaying ''ABC123'')
        = Some (Some ''p1'', False)
   \<and> map_option (\<lambda>g. (currentPlayerId g, drawnCard g \<noteq> None)) (games demoHeld ''ABC123'')
        = Some (Some ''p1'', True)"
  by code_simp

subsection \<open>C5: creating a room\<close>

text \<open>
  C5 (as amended). \<^verbatim>\<open>CREATE_GAME\<close> registers, under the code the random generator
  returned and without looking that code up, a session in the lobby whose only player
  is the creator, marked host; it replies with that session, binds the connection to
  it, and leaves the sessions under every other code as they were. (A session already
  registered under the same code is replaced.)
\<close>

theorem create_game_registers:
  "\<exists>g. handle e ws (CREATE_GAME n p) st =
          (st\<lparr>games := (games st)(randomCode e \<mapsto> g),
              clients := (clients st)(ws \<mapsto> \<lparr>playerId = p, gameCode = randomCode e\<rparr>)\<rparr>,
           [Send ws (GAME_CREATED (randomCode e) g)])
       \<and> code g = randomCode e \<and> state g = Lobby \<and> host g = p
       \<and> players g = [\<lparr>pid = p, name = n, isHost = True, cards = [], score = 0, canSeeCorners = False\<rparr>]"
  by (simp add: createGame_def newGame_def newPlayer_def Let_def)

text \<open>The instance: alice creates the first room of the server.\<close>

theorem create_game_registers_witness:
  "map_option (\<lambda>g. (state g, map (\<lambda>q. (name q, isHost q)) (players g)))
     (games (fst (handle demoEnv 1 (CREATE_GAME ''alice'' ''p1'') emptyServer)) ''ABC123'')
   = Some (Lobby, [(''alice'', True)])"
proof -
  from create_game_registers[of demoEnv 1 "''alice''" "''p1''" emptyServer]
  obtain g where g: "handle demoEnv 1 (CREATE_GAME ''alice'' ''p1'') emptyServer =
          (emptyServer\<lparr>games := (games emptyServer)(randomCode demoEnv \<mapsto> g),
              clients := (clients emptyServer)(1 \<mapsto> \<lparr>playerId = ''p1'', gameCode = randomCode demoEnv\<rparr>)\<rparr>,
           [Send 1 (GAME_CREATED (randomCode demoEnv) g)])"
    "state g = Lobby"
    "players g = [\<lparr>pid = ''p1'', name = ''alice'', isHost = True, cards = [], score = 0, canSeeCorners = False\<rparr>]"
    by blast
  show ?thesis using g by (simp add: demoEnv_def)
qed

text \<open>
  The claim as stated fails when the generator returns a code in use: after bob's
  \<^verbatim>\<open>CREATE_GAME\<close> with the code of alice's room, the room holds bob's session and alice's
  is gone.
\<close>

theorem create_overwrites_room:
  "map_option (\<lambda>g. (host g, map name (players g)))
     (games (run [(demoEnv, Message 1 (CREATE_GAME ''alice'' ''p1''))] emptyServer) ''ABC123'')
     = Some (''p1'', [''alice''])
   \<and> map_option (\<lambda>g. (host g, map name (players g)))
     (games (run [(demoEnv, Message 1 (CREATE_GAME ''alice'' ''p1'')),
                  (demoEnv, Message 2 (CREATE_GAME ''bob'' ''p2''))] emptyServer) ''ABC123'')
     = Some (''p2'', [''bob''])"
  by code_simp

subsection \<open>C6: joining a room\<close>

text \<open>
  C6. \<^verbatim>\<open>JOIN_GAME\<close> is answered \<^verbatim>\<open>Game not found\<close> when the code names no session,
  \<^verbatim>\<open>Game is full\<close> when the session has 8 players (or more), and
  \<^verbatim>\<open>Player name already taken\<close> when a player of the session has exactly the requested
  name; in these three cases the server state is unchanged. Otherwise one player with
  the requested name and id, not host, is appended to the players of the session.
\<close>

theorem join_game_validation:
  "(games st gc = None \<longrightarrow>
      handle e ws (JOIN_GAME n p gc) st = (st, [Send ws (ERROR ''Game not found'')]))
   \<and> (\<forall>g. games st gc = Some g \<longrightarrow>
        (8 \<le> length (players g) \<longrightarrow>
           handle e ws (JOIN_GAME n p gc) st = (st, [Send ws (ERROR ''Game is full'')]))
      \<and> (length (players g) < 8 \<and> n \<in> name ` set (players g) \<longrightarrow>
           handle e ws (JOIN_GAME n p gc) st = (st, [Send ws (ERROR ''Player name already taken'')]))
      \<and> (length (players g) < 8 \<and> n \<notin> name ` set (players g) \<longrightarrow>
           (let g' = g\<lparr>players := players g @
                  [\<lparr>pid = p, name = n, isHost = False, cards = [], score = 0, canSeeCorners = False\<rparr>]\<rparr>
            in handle e ws (JOIN_GAME n p gc) st =
              (st\<lparr>games := (games st)(gc \<mapsto> g'),
                  clients := (clients st)(ws \<mapsto> \<lparr>playerId = p, gameCode = gc\<rparr>)\<rparr>,
               [Send ws (GAME_JOINED g'), Broadcast gc (GAME_JOINED g') (Some ws)]))))"
  by (auto simp: joinGame_def newPlayer_def Let_def)

text \<open>
  The instance: a ninth player joins an unknown room and the full room; in the room of
  alice and bob the name \<^verbatim>\<open>bob\<close> is taken and the name \<^verbatim>\<open>Bob\<close> is not.
\<close>

theorem join_game_validation_witness:
  "handle demoEnv 9 (JOIN_GAME ''ivan'' ''p9'' ''NOROOM'') demoFull = (demoFull, [Send 9 (ERROR ''Game not found'')])
   \<and> handle demoEnv 9 (JOIN_GAME ''ivan'' ''p9'' ''ABC123'') demoFull = (demoFull, [Send 9 (ERROR ''Game is full'')])
   \<and> handle demoEnv 9 (JOIN_GAME ''bob'' ''p9'' ''ABC123'') demoPlaying
        = (demoPlaying, [Send 9 (ERROR ''Player name already taken'')])
   \<and> map_option (\<lambda>g. map (\<lambda>q. (name q, isHost q)) (players g))
        (games (fst (handle demoEnv 9 (JOIN_GAME ''Bob'' ''p9'' ''ABC123'') demoPlaying)) ''ABC123'')
        = Some [(''alice'', True), (''bob'', False), (''Bob'', False)]"
proof -
  have 1: "games demoFull ''NOROOM'' = None" by code_simp
  have 2: "games demoFull ''ABC123'' = Some (gameAt ''ABC123'' demoFull)" by code_simp
  have 3: "8 \<le> length (players (gameAt ''ABC123'' demoFull))" by code_simp
  have 4: "games demoPlaying ''ABC123'' = Some (gameAt ''ABC123'' demoPlaying)" by code_simp
  have 5: "length (players (gameAt ''ABC123'' demoPlaying)) < 8" by code_simp
  have 6: "''bob'' \<in> name ` set (players (gameAt ''ABC123'' demoPlaying))" by code_simp
  have 7: "''Bob'' \<notin> name ` set (players (gameAt ''ABC123'' demoPlaying))" by code_simp
  have 8: "map (\<lambda>q. (name q, isHost q)) (players (gameAt ''ABC123'' demoPlaying))
             = [(''alice'', True), (''bob'', False)]" by code_simp
  show ?thesis
    using join_game_validation[of demoFull "''NOROOM''" demoEnv 9 "''ivan''" "''p9''"]
      join_game_validation[of demoFull "''ABC123''" demoEnv 9 "''ivan''" "''p9''"]
      join_game_validation[of demoPlaying "''ABC123''" demoEnv 9 "''bob''" "''p9''"]
      join_game_validation[of demoPlaying "''ABC123''" demoEnv 9 "''Bob''" "''p9''"]
      1 2 3 4 5 6 7 8
    by (simp add: Let_def)
qed

subsection \<open>C7: four slots in every hand\<close>

text \<open>
  C7 (as amended). For every run from the empty registry in which the slot indices of
  \<^verbatim>\<open>REPLACE_CARD\<close> and \<^verbatim>\<open>SWITCH_CARDS\<close> are below 4 and nobody joins a session that is
  Playing, every hand of every session that is Playing has exactly 4 slots.
\<close>

theorem four_slots_in_range:
  assumes "legalRun slotsInRange evs emptyServer"
    and "games (run evs emptyServer) gc = Some g"
    and "state g = Playing"
    and "q \<in> set (players g)"
  shows "length (cards q) = 4"
proof -
  have "allGames hands4 (run evs emptyServer)"
    using assms(1) by (intro run_invariant[where P = "allGames hands4" and L = slotsInRange])
      (simp_all add: hands4_step allGames_empty)
  then have "hands4 g" using assms(2) by (simp add: allGames_def)
  then show ?thesis using assms(3,4) by (simp add: hands4_def handLengths_def)
qed

text \<open>
  The instance: the hands of alice and bob after the run \<open>demoInRange\<close>, a replace and a
  switch with indices below 4.
\<close>

theorem four_slots_in_range_witness:
  "length (cards (players (gameAt ''ABC123'' (run demoInRange emptyServer)) ! 0)) = 4
   \<and> length (cards (players (gameAt ''ABC123'' (run demoInRange emptyServer)) ! 1)) = 4"
proof -
  let ?g = "gameAt ''ABC123'' (run demoInRange emptyServer)"
  have 1: "legalRun slotsInRange demoInRange emptyServer" by code_simp
  have 2: "games (run demoInRange emptyServer) ''ABC123'' = Some ?g" by code_simp
  have 3: "state ?g = Playing" by code_simp
  have 4: "players ?g ! 0 \<in> set (players ?g)" by code_simp
  have 5: "players ?g ! 1 \<in> set (players ?g)" by code_simp
  from four_slots_in_range[OF 1 2 3 4] four_slots_in_range[OF 1 2 3 5] show ?thesis by simp
qed

text \<open>
  The claim as stated fails for an index out of range: alice draws and replaces slot 5,
  and her hand has 6 slots while the session is Playing.
\<close>

theorem replace_beyond_hand_grows_it:
  "map_option (\<lambda>g. (state g, handLengths g))
     (games (run (demoStart @ [(demoEnv, Message 1 (DRAW_CARD ''ABC123'' ''p1'')),
                               (demoEnv, Message 1 (REPLACE_CARD ''ABC123'' ''p1'' 5))]) emptyServer)
        ''ABC123'')
   = Some (Playing, [6, 4])"
  by code_simp

subsection \<open>C8: switching two slots\<close>

text \<open>
  C8. \<^verbatim>\<open>SWITCH_CARDS\<close> on a registered session, naming two of its players (found at the
  positions \<open>a\<close> and \<open>b\<close>) and two slot indices, is carried out whoever sends it and
  whoever has the turn. A read of slot \<open>i\<close> of player \<open>a\<close> afterwards gives what slot
  \<open>j\<close> of player \<open>b\<close> gave before, and conversely; every other slot of every hand reads
  as before; the players keep their ids, names, host flags and scores; the deck, the
  discard pile, the turn index, \<open>currentPlayerId\<close>, \<open>caboCallerId\<close>, the counter and every
  other field of the session, and the rest of the server state, are unchanged. With both
  indices inside the hands, no hand changes its number of slots.
\<close>

theorem switch_cards_frame:
  assumes "games st gc = Some g"
    and "findPlayer (players g) p = Some a"
    and "findPlayer (players g) opp = Some b"
  shows "\<exists>g'. handle e ws (SWITCH_CARDS gc p opp i j) st =
            (st\<lparr>games := (games st)(gc \<mapsto> g')\<rparr>,
             [Broadcast gc (CARDS_SWITCHED g') None, Send ws (CARDS_SWITCHED g')])
     \<and> g'\<lparr>players := players g\<rparr> = g
     \<and> deck g' = deck g \<and> discardPile g' = discardPile g
     \<and> currentTurn g' = currentTurn g \<and> currentPlayerId g' = currentPlayerId g
     \<and> caboCallerId g' = caboCallerId g \<and> turnsAfterCabo g' = turnsAfterCabo g
     \<and> length (players g') = length (players g)
     \<and> (\<forall>k < length (players g). (players g' ! k)\<lparr>cards := cards (players g ! k)\<rparr> = players g ! k)
     \<and> (\<forall>k < length (players g). score (players g' ! k) = score (players g ! k))
     \<and> getSlot (cards (players g' ! a)) i = getSlot (cards (players g ! b)) j
     \<and> getSlot (cards (players g' ! b)) j = getSlot (cards (players g ! a)) i
     \<and> (\<forall>k s. k < length (players g) \<and> (k, s) \<noteq> (a, i) \<and> (k, s) \<noteq> (b, j) \<longrightarrow>
           getSlot (cards (players g' ! k)) s = getSlot (cards (players g ! k)) s)
     \<and> (i < length (cards (players g ! a)) \<and> j < length (cards (players g ! b)) \<longrightarrow>
           (\<forall>k < length (players g). length (cards (players g' ! k)) = length (cards (players g ! k))))"
proof -
  have a: "a < length (players g)" and b: "b < length (players g)"
    using assms findPlayer_Some by blast+
  show ?thesis
    using assms a b
    apply (simp add: onGame_Some switchCards_def swapSlots_def Let_def)
    apply (intro conjI allI impI)
    apply (auto simp: nth_list_update getSlot_setSlot length_setSlot_inrange)
    done
qed

text \<open>
  The instance: in the session just dealt bob, whose turn it is not, sends the request
  for alice's slot 0 and his own slot 3.
\<close>

theorem switch_cards_frame_witness:
  "map_option (\<lambda>g. (getSlot (cards (players g ! 0)) 0, getSlot (cards (players g ! 1)) 3,
                     getSlot (cards (players g ! 0)) 1, handLengths g, currentPlayerId g))
     (games (fst (handle demoEnv 2 (SWITCH_CARDS ''ABC123'' ''p1'' ''p2'' 0 3) demoPlaying)) ''ABC123'')
   = Some (Some \<lparr>suit = Clubs, cvalue = Pip 6\<rparr>, Some \<lparr>suit = Clubs, cvalue = King\<rparr>,
           Some \<lparr>suit = Clubs, cvalue = Queen\<rparr>, [4, 4], Some ''p1'')"
proof -
  let ?g = "gameAt ''ABC123'' demoPlaying"
  have 1: "games demoPlaying ''ABC123'' = Some ?g" by code_simp
  have 2: "findPlayer (players ?g) ''p1'' = Some 0" by code_simp
  have 3: "findPlayer (players ?g) ''p2'' = Some 1" by code_simp
  have 4: "getSlot (cards (players ?g ! 1)) 3 = Some \<lparr>suit = Clubs, cvalue = Pip 6\<rparr>" by code_simp
  have 5: "getSlot (cards (players ?g ! 0)) 0 = Some \<lparr>suit = Clubs, cvalue = King\<rparr>" by code_simp
  have 6: "getSlot (cards (players ?g ! 0)) 1 = Some \<lparr>suit = Clubs, cvalue = Queen\<rparr>" by code_simp
  have 8: "currentPlayerId ?g = Some ''p1''" by code_simp
  have n: "length (players ?g) = 2" by code_simp
  have l0: "length (cards (players ?g ! 0)) = 4" by code_simp
  have l1: "length (cards (players ?g ! 1)) = 4" by code_simp
  from switch_cards_frame[OF 1 2 3, of demoEnv 2 0 3]
  obtain g' where g': "handle demoEnv 2 (SWITCH_CARDS ''ABC123'' ''p1'' ''p2'' 0 3) demoPlaying =
            (demoPlaying\<lparr>games := (games demoPlaying)(''ABC123'' \<mapsto> g')\<rparr>,
             [Broadcast ''ABC123'' (CARDS_SWITCHED g') None, Send 2 (CARDS_SWITCHED g')])"
     "currentPlayerId g' = currentPlayerId ?g"
     "length (players g') = length (players ?g)"
     "getSlot (cards (players g' ! 0)) 0 = getSlot (cards (players ?g ! 1)) 3"
     "getSlot (cards (players g' ! 1)) 3 = getSlot (cards (players ?g ! 0)) 0"
     "\<forall>k s. k < length (players ?g) \<and> (k, s) \<noteq> (0, 0) \<and> (k, s) \<noteq> (1, 3) \<longrightarrow>
           getSlot (cards (players g' ! k)) s = getSlot (cards (players ?g ! k)) s"
     "0 < length (cards (players ?g ! 0)) \<and> 3 < length (cards (players ?g ! 1)) \<longrightarrow>
           (\<forall>k < length (players ?g). length (cards (players g' ! k)) = length (cards (players ?g ! k)))"
    by (elim exE conjE) (rule that; assumption)
  have other: "getSlot (cards (players g' ! 0)) 1 = getSlot (cards (players ?g ! 0)) 1"
    using g'(6) n by simp
  have lens: "length (cards (players g' ! 0)) = 4" "length (cards (players g' ! 1)) = 4"
    using g'(7) n l0 l1 by simp_all
  have two: "\<And>xs :: player list. length xs = 2 \<Longrightarrow>
      map (\<lambda>q. length (cards q)) xs = [length (cards (xs ! 0)), length (cards (xs ! 1))]"
    by (auto simp: length_Suc_conv numeral_2_eq_2)
  have hl: "handLengths g' = [4, 4]"
    using two[of "players g'"] g'(3) n lens by (simp add: handLengths_def)
  show ?thesis using g'(1,2,4,5) 4 5 6 8 other hl by simp
qed

subsection \<open>C9: the score of a hand\<close>

text \<open>
  C9. For every hand of cards, \<open>calculateScore\<close> returns the sum of the value table
  (A = 1, numeral ranks their face value, J = 11, Q = 12, K = 13 except a red King = -1);
  the hand [A of spades, K of hearts, 5 of clubs, Q of diamonds] scores 17 and the four
  Kings score 24.
\<close>

theorem calculateScore_table:
  "calculateScore (map Crd cs) = Some (tableScore cs)
   \<and> calculateScore (map Crd [\<lparr>suit = Spades, cvalue = Ace\<rparr>, \<lparr>suit = Hearts, cvalue = King\<rparr>,
        \<lparr>suit = Clubs, cvalue = Pip 5\<rparr>, \<lparr>suit = Diamonds, cvalue = Queen\<rparr>]) = Some 17
   \<and> calculateScore (map Crd [\<lparr>suit = Spades, cvalue = King\<rparr>, \<lparr>suit = Clubs, cvalue = King\<rparr>,
        \<lparr>suit = Hearts, cvalue = King\<rparr>, \<lparr>suit = Diamonds, cvalue = King\<rparr>]) = Some 24"
  by (simp add: calculateScore_def scoreLoop_cards tableScore_def isRed_def addCard_def)

subsection \<open>C10: acquiring from an empty pile\<close>

text \<open>
  C10. When the current player holds no card and sends \<^verbatim>\<open>DRAW_CARD\<close> with the deck
  empty, or \<^verbatim>\<open>TAKE_DISCARD\<close> with the discard pile empty, no error is sent: a
  \<^verbatim>\<open>CARD_DRAWN\<close> message without a card is broadcast to the room and sent to the
  requester, the server state (held card, piles, hands) is what it was, and a further
  \<^verbatim>\<open>DRAW_CARD\<close> or \<^verbatim>\<open>TAKE_DISCARD\<close> of the player is not answered with an error either.
\<close>

theorem acquire_on_empty_pile:
  assumes "games st gc = Some g" and "currentPlayerId g = Some p" and "drawnCard g = None"
  shows "(deck g = [] \<longrightarrow>
            handle e ws (DRAW_CARD gc p) st =
              (st, [Broadcast gc (CARD_DRAWN g None p) None, Send ws (CARD_DRAWN g None p)])
          \<and> \<not> list_ex isError (snd (handle e ws (DRAW_CARD gc p) (fst (handle e ws (DRAW_CARD gc p) st))))
          \<and> \<not> list_ex isError (snd (handle e ws (TAKE_DISCARD gc p) (fst (handle e ws (DRAW_CARD gc p) st)))))
       \<and> (discardPile g = [] \<longrightarrow>
            handle e ws (TAKE_DISCARD gc p) st =
              (st, [Broadcast gc (CARD_DRAWN g None p) None, Send ws (CARD_DRAWN g None p)])
          \<and> \<not> list_ex isError (snd (handle e ws (DRAW_CARD gc p) (fst (handle e ws (TAKE_DISCARD gc p) st))))
          \<and> \<not> list_ex isError (snd (handle e ws (TAKE_DISCARD gc p) (fst (handle e ws (TAKE_DISCARD gc p) st)))))"
proof -
  have g: "g\<lparr>deck := [], drawnCard := None\<rparr> = g" if "deck g = []"
    using that assms(3) by simp
  have h: "g\<lparr>discardPile := [], drawnCard := None\<rparr> = g" if "discardPile g = []"
    using that assms(3) by simp
  have d: "deck g = [] \<Longrightarrow> handle e ws (DRAW_CARD gc p) st =
              (st, [Broadcast gc (CARD_DRAWN g None p) None, Send ws (CARD_DRAWN g None p)])"
    using assms g by (simp add: onGame_Some drawCard_def pop_def Let_def same_game)
  have t: "discardPile g = [] \<Longrightarrow> handle e ws (TAKE_DISCARD gc p) st =
              (st, [Broadcast gc (CARD_DRAWN g None p) None, Send ws (CARD_DRAWN g None p)])"
    using assms h by (simp add: onGame_Some takeDiscard_def pop_def Let_def same_game)
  have nd: "\<not> list_ex isError (snd (handle e ws (DRAW_CARD gc p) st))"
    using assms by (simp add: onGame_Some drawCard_def Let_def)
  have nt: "\<not> list_ex isError (snd (handle e ws (TAKE_DISCARD gc p) st))"
    using assms by (simp add: onGame_Some takeDiscard_def Let_def)
  show ?thesis using d t nd nt by simp
qed

text \<open>
  The instance: bob draws from the deck emptied by 43 draws, and takes from the discard
  pile he has just emptied.
\<close>

theorem acquire_on_empty_pile_witness:
  "snd (handle demoEnv 2 (DRAW_CARD ''ABC123'' ''p2'') demoDeckEmpty)
     = [Broadcast ''ABC123'' (CARD_DRAWN (gameAt ''ABC123'' demoDeckEmpty) None ''p2'') None,
        Send 2 (CARD_DRAWN (gameAt ''ABC123'' demoDeckEmpty) None ''p2'')]
   \<and> fst (handle demoEnv 2 (DRAW_CARD ''ABC123'' ''p2'') demoDeckEmpty) = demoDeckEmpty
   \<and> snd (handle demoEnv 2 (TAKE_DISCARD ''ABC123'' ''p2'') demoDiscardEmpty)
     = [Broadcast ''ABC123'' (CARD_DRAWN (gameAt ''ABC123'' demoDiscardEmpty) None ''p2'') None,
        Send 2 (CARD_DRAWN (gameAt ''ABC123'' demoDiscardEmpty) None ''p2'')]
   \<and> fst (handle demoEnv 2 (TAKE_DISCARD ''ABC123'' ''p2'') demoDiscardEmpty) = demoDiscardEmpty"
proof -
  have 1: "games demoDeckEmpty ''ABC123'' = Some (gameAt ''ABC123'' demoDeckEmpty)" by code_simp
  have 2: "currentPlayerId (gameAt ''ABC123'' demoDeckEmpty) = Some ''p2''" by code_simp
  have 3: "drawnCard (gameAt ''ABC123'' demoDeckEmpty) = None" by code_simp
  have 4: "deck (gameAt ''ABC123'' demoDeckEmpty) = []" by code_simp
  have 5: "games demoDiscardEmpty ''ABC123'' = Some (gameAt ''ABC123'' demoDiscardEmpty)" by code_simp
  have 6: "currentPlayerId (gameAt ''ABC123'' demoDiscardEmpty) = Some ''p2''" by code_simp
  have 7: "drawnCard (gameAt ''ABC123'' demoDiscardEmpty) = None" by code_simp
  have 8: "discardPile (gameAt ''ABC123'' demoDiscardEmpty) = []" by code_simp
  show ?thesis
    using acquire_on_empty_pile[OF 1 2 3, of demoEnv 2] acquire_on_empty_pile[OF 5 6 7, of demoEnv 2] 4 8
    by simp
qed

end
